(* ===== verification/Prelude.thy ===== *)
theory Prelude
  imports Main "HOL-Library.Word" "HOL-Library.Sublist"
begin

text \<open>
  Shared vocabulary of the development: the C string functions the program calls
  (\<open>strrchr\<close>, \<open>strcmp\<close>, \<open>snprintf\<close> with \<open>%s\<close> and \<open>%d\<close>), modelled on
  character lists in which the byte \<open>NUL\<close> ends a C string, and the generic list
  lemmas the component theories share. A C \<open>char\<close> is an Isabelle \<open>char\<close>
  (eight bits); a byte buffer is a \<open>string\<close>.
\<close>

named_theorems cstr_simps "rewrite rules for the C string model"

type_synonym cbuf = string

abbreviation NUL :: char where
  "NUL \<equiv> CHR 0x00"

subsection \<open>C strings\<close>

text \<open>Reading a buffer as a C string: everything before the first \<open>NUL\<close>.\<close>

definition c_str :: "cbuf \<Rightarrow> string" where
  "c_str s = takeWhile (\<lambda>c. c \<noteq> NUL) s"

text \<open>
  \<open>strrchr(s, c)\<close> for a character \<open>c \<noteq> NUL\<close>: the suffix of the C string
  \<open>s\<close> that starts at the last occurrence of \<open>c\<close>, or \<open>NULL\<close> (\<open>None\<close>).
  \<open>strrchr_from\<close> scans a NUL-free string; the result is the pointer into the
  original string, read as a C string.
\<close>

fun strrchr_from :: "char \<Rightarrow> string \<Rightarrow> string option" where
  "strrchr_from c [] = None"
| "strrchr_from c (x # xs) =
     (case strrchr_from c xs of
        Some r \<Rightarrow> Some r
      | None \<Rightarrow> (if x = c then Some (x # xs) else None))"

definition strrchr :: "cbuf \<Rightarrow> char \<Rightarrow> string option" where
  "strrchr s c = strrchr_from c (c_str s)"

text \<open>\<open>strcmp(a, b) == 0\<close>: the two C strings are equal.\<close>

definition strcmp_eq :: "cbuf \<Rightarrow> cbuf \<Rightarrow> bool" where
  "strcmp_eq a b \<longleftrightarrow> c_str a = c_str b"

text \<open>
  \<open>snprintf(buf, n, fmt, ...)\<close> with a format of \<open>%s\<close> conversions and literal
  text writes at most \<open>n - 1\<close> characters of the formatted text and a \<open>NUL\<close>.
  \<open>snprintf_str n t\<close> is the C string left in the buffer, for the formatted text
  \<open>t\<close> (the concatenation of the pieces, each argument read as a C string).
\<close>

definition snprintf_str :: "nat \<Rightarrow> string \<Rightarrow> string" where
  "snprintf_str n t = take (n - 1) t"

text \<open>\<open>%d\<close> conversion of an \<open>int\<close>.\<close>

fun string_of_nat :: "nat \<Rightarrow> string" where
  "string_of_nat n =
     (if n < 10 then [char_of (48 + n)]
      else string_of_nat (n div 10) @ [char_of (48 + n mod 10)])"

definition string_of_int :: "int \<Rightarrow> string" where
  "string_of_int i =
     (if i < 0 then CHR ''-'' # string_of_nat (nat (- i)) else string_of_nat (nat i))"

subsection \<open>Lemmas on C strings\<close>

lemma c_str_Nil [simp, cstr_simps]: "c_str [] = []"
  by (simp add: c_str_def)

lemma c_str_Cons [simp, cstr_simps]:
  "c_str (x # xs) = (if x = NUL then [] else x # c_str xs)"
  by (simp add: c_str_def)

lemma c_str_no_nul [cstr_simps]: "NUL \<notin> set s \<Longrightarrow> c_str s = s"
  by (induction s) auto

lemma c_str_append_nul [cstr_simps]: "NUL \<notin> set s \<Longrightarrow> c_str (s @ NUL # t) = s"
  by (induction s) auto

lemma c_str_append_no_nul: "NUL \<notin> set s \<Longrightarrow> c_str (s @ t) = s @ c_str t"
  by (induction s) auto

lemma c_str_append_Cons_nul: "c_str (s @ NUL # t) = c_str s"
  by (induction s) auto

lemma c_str_append_has_nul [cstr_simps]: "NUL \<in> set s \<Longrightarrow> c_str (s @ t) = c_str s"
  by (induction s) auto

lemma c_str_replicate_nul [simp]: "c_str (replicate n NUL) = []"
  by (cases n) simp_all

lemma nul_notin_c_str [simp]: "NUL \<notin> set (c_str s)"
  by (induction s) auto

lemma c_str_idem [simp]: "c_str (c_str s) = c_str s"
  by (simp add: c_str_no_nul)

lemma c_str_prefix: "prefix (c_str s) s"
  by (induction s) auto

lemma length_c_str_le: "length (c_str s) \<le> length s"
  by (simp add: c_str_def length_takeWhile_le)

lemma strcmp_eq_lit [cstr_simps]:
  "NUL \<notin> set b \<Longrightarrow> strcmp_eq a b \<longleftrightarrow> c_str a = b"
  by (simp add: strcmp_eq_def c_str_no_nul)

text \<open>
  What \<open>strrchr\<close> returns: a non-empty suffix that starts with the character
  sought and holds no other occurrence of it.
\<close>

lemma strrchr_from_None: "strrchr_from c s = None \<longleftrightarrow> c \<notin> set s"
  by (induction s) (auto split: option.splits)

lemma strrchr_from_Some_shape:
  "strrchr_from c s = Some r \<Longrightarrow> \<exists>p. s = p @ r \<and> r \<noteq> [] \<and> hd r = c \<and> c \<notin> set (tl r)"
proof (induction s arbitrary: r)
  case Nil
  then show ?case by simp
next
  case (Cons x xs)
  show ?case
  proof (cases "strrchr_from c xs")
    case None
    with Cons.prems show ?thesis
      by (auto simp: strrchr_from_None split: if_splits)
  next
    case (Some r')
    with Cons.prems Cons.IH show ?thesis
      by (metis append_Cons option.inject option.simps(5) strrchr_from.simps(2))
  qed
qed

lemma strrchr_from_last: "c \<notin> set t \<Longrightarrow> strrchr_from c (p @ c # t) = Some (c # t)"
  by (induction p) (simp_all add: strrchr_from_None [THEN iffD2])

lemma strrchr_from_Some:
  "strrchr_from c s = Some r \<longleftrightarrow> (\<exists>p. s = p @ r \<and> r \<noteq> [] \<and> hd r = c \<and> c \<notin> set (tl r))"
proof
  assume "strrchr_from c s = Some r"
  then show "\<exists>p. s = p @ r \<and> r \<noteq> [] \<and> hd r = c \<and> c \<notin> set (tl r)"
    by (rule strrchr_from_Some_shape)
next
  assume "\<exists>p. s = p @ r \<and> r \<noteq> [] \<and> hd r = c \<and> c \<notin> set (tl r)"
  then obtain p t where "s = p @ c # t" "r = c # t" "c \<notin> set t"
    by (metis list.collapse)
  then show "strrchr_from c s = Some r"
    by (simp add: strrchr_from_last)
qed

lemma strrchr_from_suffix:
  assumes "e \<noteq> []" and "hd e = c" and "c \<notin> set (tl e)"
  shows "strrchr_from c s = Some e \<longleftrightarrow> suffix e s"
  using assms by (auto simp: strrchr_from_Some suffix_def)

lemma strrchr_from_subset: "strrchr_from c s = Some r \<Longrightarrow> set r \<subseteq> set s"
  by (auto simp: strrchr_from_Some)

lemma c_str_snoc_nul [simp]: "c_str (s @ [NUL]) = c_str s"
  by (induction s) auto

text \<open>The digits \<open>string_of_nat\<close> prints, so that printed numbers evaluate by \<open>simp\<close>.\<close>

lemma char_of_digits [simp]:
  "char_of (48::nat) = CHR ''0''" "char_of (49::nat) = CHR ''1''" "char_of (50::nat) = CHR ''2''"
  "char_of (51::nat) = CHR ''3''" "char_of (52::nat) = CHR ''4''" "char_of (53::nat) = CHR ''5''"
  "char_of (54::nat) = CHR ''6''" "char_of (55::nat) = CHR ''7''" "char_of (56::nat) = CHR ''8''"
  "char_of (57::nat) = CHR ''9''"
  by code_simp+

end
