(* ===== verification/Os.thy ===== *)
theory Os
  imports Prelude
begin

text \<open>
  The interfaces of the operating system and of the libraries that
  \<open>src/main.c\<close> calls, and the state of the world the program sees through
  them. The inotify event layout is the kernel's ABI (\<open>sys/inotify.h\<close>); the
  libcurl request is the configuration \<open>upload_image\<close> writes into an easy
  handle; \<open>world\<close> holds what the program reads and changes: the file system,
  the inotify queue, the network, the clipboard, the clock and the two output
  streams. Where the program reads something it does not control (a read result,
  a server reply, an exit status) the value is a field of \<open>world\<close>, so that a
  theorem holds for every initial world. The read results and the replies are
  queues consumed one per call; the flags (\<open>w_curl_ok\<close>, \<open>w_popen_ok\<close>,
  \<open>w_wlcopy_status\<close>, \<open>w_pclose_fails\<close>, \<open>w_inotify_ok\<close>) are fixed for a
  run, so an environment whose behaviour changes from one call to the next is
  covered only through the queues.
\<close>

subsection \<open>inotify\<close>

definition IN_CREATE :: "32 word" where
  "IN_CREATE = 0x00000100"

definition IN_ISDIR :: "32 word" where
  "IN_ISDIR = 0x40000000"

text \<open>\<open>sizeof(struct inotify_event)\<close>: four 32-bit fields before the name.\<close>

definition EVENT_SIZE :: nat where
  "EVENT_SIZE = 16"

definition EVENT_BUF_LEN :: nat where
  "EVENT_BUF_LEN = 1024 * (EVENT_SIZE + 16)"

text \<open>\<open>INT_MAX\<close> of \<open>limits.h\<close> for the 32-bit C \<open>int\<close>.\<close>

definition INT_MAX :: nat where
  "INT_MAX = 2 ^ 31 - 1"

definition PATH_MAX :: nat where
  "PATH_MAX = 4096"

record inotify_event =
  ev_wd :: "32 word"
  ev_mask :: "32 word"
  ev_cookie :: "32 word"
  ev_len :: "32 word"
  ev_name :: cbuf

text \<open>
  A 32-bit field in memory, least significant byte first (x86-64, aarch64).
  \<open>byte_val\<close> reads the byte at an offset; past the end of the bytes a read
  returned it is 0 (a well-formed kernel buffer is never read there).
\<close>

definition le32_bytes :: "32 word \<Rightarrow> cbuf" where
  "le32_bytes w = map (\<lambda>k. char_of (unat w div 256 ^ k)) [0, 1, 2, 3]"

definition byte_val :: "cbuf \<Rightarrow> nat \<Rightarrow> nat" where
  "byte_val bs k = (if k < length bs then of_char (bs ! k) else 0)"

definition le32_read :: "cbuf \<Rightarrow> 32 word" where
  "le32_read bs =
     word_of_nat (byte_val bs 0 + 256 * byte_val bs 1 + 65536 * byte_val bs 2
                  + 16777216 * byte_val bs 3)"

text \<open>The bytes the kernel writes for one event and for a batch of events.\<close>

definition encode_event :: "inotify_event \<Rightarrow> cbuf" where
  "encode_event ev =
     le32_bytes (ev_wd ev) @ le32_bytes (ev_mask ev) @ le32_bytes (ev_cookie ev)
     @ le32_bytes (ev_len ev) @ ev_name ev"

definition kernel_buffer :: "inotify_event list \<Rightarrow> cbuf" where
  "kernel_buffer evs = concat (map encode_event evs)"

text \<open>
  What the kernel guarantees of an event: \<open>len\<close> counts the bytes of the name
  field, and a non-empty name field holds its terminating \<open>NUL\<close>.
\<close>

definition wf_event :: "inotify_event \<Rightarrow> bool" where
  "wf_event ev \<longleftrightarrow>
     length (ev_name ev) = unat (ev_len ev) \<and> (ev_len ev \<noteq> 0 \<longrightarrow> NUL \<in> set (ev_name ev))"

text \<open>One \<open>read(fd, buffer, EVENT_BUF_LEN)\<close> on the inotify descriptor.\<close>

datatype read_result = ReadError | ReadEvents "inotify_event list"

subsection \<open>libcurl\<close>

definition CURLE_OK :: int where
  "CURLE_OK = 0"

definition CURLE_WRITE_ERROR :: int where
  "CURLE_WRITE_ERROR = 23"

definition CURLE_OPERATION_TIMEDOUT :: int where
  "CURLE_OPERATION_TIMEDOUT = 28"

datatype mime_data = MimeFile string | MimeText string | MimeNone

record mime_part =
  mp_name :: "string option"
  mp_data :: mime_data

record curl_request =
  rq_method :: string
  rq_url :: string
  rq_follow :: bool
  rq_protocol :: string
  rq_headers :: "string list"
  rq_mime :: "mime_part list"
  rq_timeout :: nat

text \<open>
  What the network does with one transfer: the transfer's result code and the
  body, as the chunks libcurl hands to the write callback.
\<close>

record net_reply =
  rp_code :: int
  rp_chunks :: "cbuf list"

subsection \<open>The world\<close>

record world =
  w_paths :: "string set"
  w_dirs :: "string set"
  w_home :: "string option"
  w_stat_garbage_dir :: bool
  w_inotify_ok :: bool
  w_watchable :: "string set"
  w_reads :: "read_result list"
  w_open_fds :: nat
  w_curl_ok :: bool
  w_heap :: nat
  w_malloc_byte :: char
  w_after_block :: cbuf
  w_replies :: "net_reply list"
  w_sent :: "curl_request list"
  w_popen_ok :: bool
  w_wlcopy_status :: int
  w_pclose_fails :: bool
  w_clipboard :: string
  w_clock :: nat
  w_out :: "string list"
  w_err :: "string list"
  w_leaked :: nat

text \<open>
  \<open>printf\<close>/\<open>fprintf(stderr, ...)\<close>/\<open>perror\<close>: one line appended to standard
  output or standard error (for \<open>perror\<close>, its tag; the \<open>strerror\<close> text is
  the C library's).
\<close>

definition put_out :: "string \<Rightarrow> world \<Rightarrow> world" where
  "put_out s w = w\<lparr>w_out := w_out w @ [s]\<rparr>"

definition put_err :: "string \<Rightarrow> world \<Rightarrow> world" where
  "put_err s w = w\<lparr>w_err := w_err w @ [s]\<rparr>"

text \<open>
  The next transfer's outcome. A server that never answers is a transfer that
  libcurl abandons at the request's timeout.
\<close>

definition next_reply :: "world \<Rightarrow> net_reply" where
  "next_reply w =
     (case w_replies w of
        [] \<Rightarrow> \<lparr>rp_code = CURLE_OPERATION_TIMEDOUT, rp_chunks = []\<rparr>
      | r # _ \<Rightarrow> r)"

subsection \<open>Example inputs\<close>

text \<open>
  The event the kernel queues when a name is created in the watched directory:
  the name field is the name, its \<open>NUL\<close> and padding, rounded up to a
  multiple of 16 bytes, and \<open>len\<close> is the field's size.
\<close>

definition name_field :: "string \<Rightarrow> cbuf" where
  "name_field n = n @ replicate (16 * (length n div 16 + 1) - length n) NUL"

definition create_event :: "32 word \<Rightarrow> string \<Rightarrow> inotify_event" where
  "create_event m n =
     \<lparr>ev_wd = 1, ev_mask = m, ev_cookie = 0,
      ev_len = word_of_nat (length (name_field n)), ev_name = name_field n\<rparr>"

text \<open>A world with nothing in it, to which examples add what they need.\<close>

definition quiet_world :: world where
  "quiet_world =
     \<lparr>w_paths = {}, w_dirs = {}, w_home = None, w_stat_garbage_dir = False,
      w_inotify_ok = True, w_watchable = {}, w_reads = [], w_open_fds = 0,
      w_curl_ok = True, w_heap = 1048576, w_malloc_byte = CHR ''?'', w_after_block = [], w_replies = [],
      w_sent = [], w_popen_ok = True, w_wlcopy_status = 0, w_pclose_fails = False,
      w_clipboard = [], w_clock = 0, w_out = [], w_err = [], w_leaked = 0\<rparr>"

subsection \<open>Lemmas\<close>

lemma le32_digits:
  fixes n :: nat
  assumes "n < 4294967296"
  shows "n mod 256 + 256 * (n div 256 mod 256) + 65536 * (n div 65536 mod 256)
         + 16777216 * (n div 16777216 mod 256) = n"
proof -
  have d3: "n div 16777216 mod 256 = n div 16777216"
    using assms by simp
  have a: "n div 65536 = n div 65536 mod 256 + 256 * (n div 16777216)"
    using mod_mult_div_eq [of "n div 65536" 256] by (simp add: div_mult2_eq [symmetric])
  have b: "n div 256 = n div 256 mod 256 + 256 * (n div 65536)"
    using mod_mult_div_eq [of "n div 256" 256] by (simp add: div_mult2_eq [symmetric])
  have c: "n = n mod 256 + 256 * (n div 256)"
    by simp
  show ?thesis
    using a b c d3 by linarith
qed

lemma le32_read_bytes [simp]: "le32_read (le32_bytes w @ rest) = w"
proof -
  define n where "n = unat w"
  have n: "n < 4294967296"
    using unsigned_less [of w] by (simp add: n_def)
  have bs: "le32_bytes w @ rest =
      char_of n # char_of (n div 256) # char_of (n div 65536) # char_of (n div 16777216) # rest"
    by (simp add: le32_bytes_def n_def)
  have "le32_read (le32_bytes w @ rest) =
      word_of_nat (n mod 256 + 256 * (n div 256 mod 256)
                   + 65536 * (n div 65536 mod 256) + 16777216 * (n div 16777216 mod 256))"
    unfolding bs by (simp add: le32_read_def byte_val_def)
  also have "\<dots> = word_of_nat n"
    by (simp only: le32_digits [OF n])
  also have "\<dots> = w"
    by (simp add: n_def)
  finally show ?thesis .
qed

lemma length_le32_bytes [simp]: "length (le32_bytes w) = 4"
  by (simp add: le32_bytes_def)

lemma length_encode_event: "length (encode_event ev) = EVENT_SIZE + length (ev_name ev)"
  by (simp add: encode_event_def EVENT_SIZE_def)

lemma length_name_field: "length (name_field n) = 16 * (length n div 16 + 1)"
  by (simp add: name_field_def)

lemma wf_create_event:
  assumes "length n < 4294967280"
  shows "wf_event (create_event m n)"
proof -
  have pad: "16 * (length n div 16 + 1) - length n \<noteq> 0"
    by simp
  have "length (name_field n) < 4294967296"
    using assms by (simp add: length_name_field)
  then have "unat (word_of_nat (length (name_field n)) :: 32 word) = length (name_field n)"
    by (simp add: unat_of_nat)
  with pad show ?thesis
    by (simp add: wf_event_def create_event_def name_field_def)
qed

end
