(* ===== verification/Watcher.thy ===== *)
theory Watcher
  imports Os
begin

unbundle bit_operations_syntax

text \<open>
  The directory watcher, \<open>watch_directory\<close> in \<open>src/main.c\<close> (lines 167--213).
  It opens an inotify descriptor, watches the directory for \<open>IN_CREATE\<close>, and
  reads batches of events until one names a new regular file whose extension is
  \<open>.png\<close>, \<open>.jpg\<close> or \<open>.jpeg\<close>; it then writes the joined path into
  \<open>new_file_path\<close>, removes the watch, closes the descriptor and returns. Any
  failure of \<open>inotify_init\<close>, \<open>inotify_add_watch\<close> or \<open>read\<close> ends the
  process. The model keeps the code's three layers: the test of one event
  (\<open>is_image_ext\<close>, \<open>qualifies\<close>), the walk over the bytes of one batch
  (\<open>process_events\<close>, the inner \<open>while (i < length)\<close>), and the outer
  \<open>while (1)\<close> over successive reads (\<open>watch_reads\<close>).
\<close>

subsection \<open>One event\<close>

text \<open>\<open>strrchr(event->name, '.')\<close> and the three \<open>strcmp\<close> calls (line 195--196).\<close>

definition is_image_ext :: "cbuf \<Rightarrow> bool" where
  "is_image_ext name =
     (case strrchr name (CHR ''.'') of
        None \<Rightarrow> False
      | Some ext \<Rightarrow> strcmp_eq ext ''.png'' \<or> strcmp_eq ext ''.jpg'' \<or> strcmp_eq ext ''.jpeg'')"

text \<open>The nested tests on \<open>len\<close>, \<open>IN_CREATE\<close>, \<open>IN_ISDIR\<close> and the extension (192--196).\<close>

definition qualifies :: "inotify_event \<Rightarrow> bool" where
  "qualifies ev \<longleftrightarrow>
     ev_len ev \<noteq> 0 \<and> ev_mask ev AND IN_CREATE \<noteq> 0 \<and> ev_mask ev AND IN_ISDIR = 0
     \<and> is_image_ext (ev_name ev)"

text \<open>
  \<open>path[strlen(path) - 1] == '/'\<close> (line 197). For the empty string the C
  expression reads before the array; it is never evaluated there, because
  \<open>inotify_add_watch\<close> fails on the empty path first.
\<close>

definition ends_with_slash :: "cbuf \<Rightarrow> bool" where
  "ends_with_slash path = (case rev (c_str path) of c # _ \<Rightarrow> c = CHR ''/'' | [] \<Rightarrow> False)"

text \<open>The two \<open>snprintf(new_file_path, PATH_MAX, ...)\<close> calls (lines 197--201).\<close>

definition join_path :: "cbuf \<Rightarrow> cbuf \<Rightarrow> string" where
  "join_path path name =
     (if ends_with_slash path then snprintf_str PATH_MAX (c_str path @ c_str name)
      else snprintf_str PATH_MAX (c_str path @ ''/'' @ c_str name))"

subsection \<open>One batch: the walk over the buffer\<close>

text \<open>
  \<open>(struct inotify_event *)&buffer[i]\<close>: the four header fields at offset
  \<open>i\<close>, and the name, a C string starting at \<open>i + EVENT_SIZE\<close>.
\<close>

definition event_at :: "cbuf \<Rightarrow> nat \<Rightarrow> inotify_event" where
  "event_at buf i =
     \<lparr>ev_wd = le32_read (drop i buf), ev_mask = le32_read (drop (i + 4) buf),
      ev_cookie = le32_read (drop (i + 8) buf), ev_len = le32_read (drop (i + 12) buf),
      ev_name = drop (i + EVENT_SIZE) buf\<rparr>"

text \<open>
  The inner loop \<open>while (i < length)\<close> (lines 190--210): the first qualifying
  event's joined path, or \<open>None\<close> when the batch holds none. The offset \<open>i\<close>
  grows by \<open>EVENT_SIZE + event->len\<close> (at least 16), so \<open>length - i\<close>
  decreases. (\<open>i\<close> is a C \<open>int\<close>; it stays below \<open>length + EVENT_SIZE + 256\<close>
  for kernel buffers, far from overflow.)
\<close>

function process_events :: "cbuf \<Rightarrow> cbuf \<Rightarrow> nat \<Rightarrow> nat \<Rightarrow> string option" where
  "process_events path buf len i =
     (if i < len then
        (let ev = event_at buf i in
         if qualifies ev then Some (join_path path (ev_name ev))
         else process_events path buf len (i + EVENT_SIZE + unat (ev_len ev)))
      else None)"
  by pat_completeness auto
termination
  by (relation "measure (\<lambda>(path, buf, len, i). len - i)") (auto simp: EVENT_SIZE_def)

declare process_events.simps [simp del]

text \<open>
  The values the \<open>int\<close> counter \<open>i\<close> of that loop takes at the test
  \<open>i < length\<close> when the loop runs to the end of the batch: each value is
  followed by \<open>i + EVENT_SIZE + event->len\<close> (line 209), the last one fails
  the test.
\<close>

function walk_offsets :: "cbuf \<Rightarrow> nat \<Rightarrow> nat \<Rightarrow> nat list" where
  "walk_offsets buf len i =
     (if i < len then i # walk_offsets buf len (i + EVENT_SIZE + unat (ev_len (event_at buf i))) else [i])"
  by pat_completeness auto
termination
  by (relation "measure (\<lambda>(buf, len, i). len - i)") (auto simp: EVENT_SIZE_def)

declare walk_offsets.simps [simp del]

subsection \<open>Successive reads\<close>

datatype watch_result = WatchFound string | WatchFatal | WatchBlocked

text \<open>
  The outer \<open>while (1)\<close> (lines 183--212) over the reads the kernel answers, in
  order; it returns the remaining reads. A failed read is fatal (lines 185--188).
  When the reads run out the program waits in \<open>read\<close> for ever: \<open>WatchBlocked\<close>.
\<close>

fun watch_reads :: "cbuf \<Rightarrow> read_result list \<Rightarrow> watch_result \<times> read_result list" where
  "watch_reads path [] = (WatchBlocked, [])"
| "watch_reads path (ReadError # rs) = (WatchFatal, rs)"
| "watch_reads path (ReadEvents evs # rs) =
     (let buf = kernel_buffer evs in
      case process_events path buf (length buf) 0 of
        Some p \<Rightarrow> (WatchFound p, rs)
      | None \<Rightarrow> watch_reads path rs)"

text \<open>
  \<open>watch_directory\<close> as a whole (lines 167--213). \<open>inotify_init\<close> failing
  (171--175), \<open>inotify_add_watch\<close> failing (177--181) and \<open>read\<close> failing are
  fatal: the process then exits with \<open>EXIT_FAILURE\<close>, which the caller sees as
  \<open>WatchFatal\<close>. On success the watch is removed and the descriptor closed
  (202--203), so the count of open descriptors is back where it was.
\<close>

definition watch_directory :: "cbuf \<Rightarrow> world \<Rightarrow> watch_result \<times> world" where
  "watch_directory path w =
     (if \<not> w_inotify_ok w then (WatchFatal, put_err ''inotify_init'' w)
      else if c_str path \<notin> w_watchable w then
        (WatchFatal,
         put_err (''Cannot watch '' @ [CHR 0x27] @ c_str path @ [CHR 0x27])
           (w\<lparr>w_open_fds := Suc (w_open_fds w)\<rparr>))
      else
        (case watch_reads path (w_reads w) of
           (WatchFound p, rs) \<Rightarrow> (WatchFound p, w\<lparr>w_reads := rs\<rparr>)
         | (WatchFatal, rs) \<Rightarrow>
             (WatchFatal, put_err ''read'' (w\<lparr>w_reads := rs, w_open_fds := Suc (w_open_fds w)\<rparr>))
         | (WatchBlocked, rs) \<Rightarrow>
             (WatchBlocked, w\<lparr>w_reads := rs, w_open_fds := Suc (w_open_fds w)\<rparr>)))"

subsection \<open>Reference behaviour\<close>

text \<open>
  What one batch should yield, stated on the events rather than the bytes: the
  joined path of the first qualifying event.
\<close>

definition scan_events :: "cbuf \<Rightarrow> inotify_event list \<Rightarrow> string option" where
  "scan_events path evs = map_option (\<lambda>e. join_path path (ev_name e)) (find qualifies evs)"

text \<open>
  The watcher's loop over reads, with each batch scanned as an event list.
\<close>

fun watch_scan :: "cbuf \<Rightarrow> read_result list \<Rightarrow> watch_result \<times> read_result list" where
  "watch_scan path [] = (WatchBlocked, [])"
| "watch_scan path (ReadError # rs) = (WatchFatal, rs)"
| "watch_scan path (ReadEvents evs # rs) =
     (case scan_events path evs of Some p \<Rightarrow> (WatchFound p, rs) | None \<Rightarrow> watch_scan path rs)"

definition wf_read :: "read_result \<Rightarrow> bool" where
  "wf_read r = (case r of ReadError \<Rightarrow> True | ReadEvents evs \<Rightarrow> (\<forall>e \<in> set evs. wf_event e))"

subsection \<open>The byte walk implements the event scan\<close>

lemma drop_encode_event:
  "drop 4 (encode_event ev) = le32_bytes (ev_mask ev) @ le32_bytes (ev_cookie ev) @ le32_bytes (ev_len ev) @ ev_name ev"
  "drop 8 (encode_event ev) = le32_bytes (ev_cookie ev) @ le32_bytes (ev_len ev) @ ev_name ev"
  "drop 12 (encode_event ev) = le32_bytes (ev_len ev) @ ev_name ev"
  "drop 16 (encode_event ev) = ev_name ev"
  by (simp_all add: encode_event_def)

lemma event_at_encode:
  "event_at (pre @ encode_event ev @ rest) (length pre) = ev\<lparr>ev_name := ev_name ev @ rest\<rparr>"
proof -
  have d: "drop (length pre + k) (pre @ encode_event ev @ rest) = drop k (encode_event ev) @ rest"
    if "k \<le> 16" for k
    using that by (simp add: length_encode_event EVENT_SIZE_def)
  show ?thesis
    unfolding event_at_def EVENT_SIZE_def
    using d [of 0] d [of 4] d [of 8] d [of 12] d [of 16]
    by (simp add: drop_encode_event) (simp add: encode_event_def)
qed

lemma is_image_ext_append:
  "NUL \<in> set name \<Longrightarrow> is_image_ext (name @ rest) = is_image_ext name"
  by (simp add: is_image_ext_def strrchr_def c_str_append_has_nul)

lemma join_path_append:
  "NUL \<in> set name \<Longrightarrow> join_path path (name @ rest) = join_path path name"
  by (simp add: join_path_def c_str_append_has_nul)

lemma qualifies_append:
  "wf_event ev \<Longrightarrow> qualifies (ev\<lparr>ev_name := ev_name ev @ rest\<rparr>) = qualifies ev"
  by (auto simp: qualifies_def wf_event_def is_image_ext_append)

lemma process_events_kernel_buffer:
  assumes "\<forall>e \<in> set evs. wf_event e"
  shows "process_events path (pre @ kernel_buffer evs) (length pre + length (kernel_buffer evs))
           (length pre) = scan_events path evs"
  using assms
proof (induction evs arbitrary: pre)
  case Nil
  then show ?case
    by (simp add: process_events.simps scan_events_def kernel_buffer_def)
next
  case (Cons e evs)
  let ?rest = "kernel_buffer evs"
  have wf: "wf_event e" and wfs: "\<forall>e \<in> set evs. wf_event e"
    using Cons.prems by simp_all
  have buf: "pre @ kernel_buffer (e # evs) = pre @ encode_event e @ ?rest"
    by (simp add: kernel_buffer_def)
  have at: "event_at (pre @ encode_event e @ ?rest) (length pre) = e\<lparr>ev_name := ev_name e @ ?rest\<rparr>"
    by (rule event_at_encode)
  have lt: "length pre < length pre + length (kernel_buffer (e # evs))"
    by (simp add: kernel_buffer_def length_encode_event EVENT_SIZE_def)
  show ?case
  proof (cases "qualifies e")
    case True
    then have "NUL \<in> set (ev_name e)"
      using wf by (simp add: qualifies_def wf_event_def)
    with True wf lt show ?thesis
      by (simp add: process_events.simps [of path] buf at qualifies_append
          join_path_append scan_events_def)
  next
    case False
    have next_i: "length pre + EVENT_SIZE + unat (ev_len e) = length (pre @ encode_event e)"
      using wf by (simp add: length_encode_event wf_event_def)
    have len: "length pre + length (kernel_buffer (e # evs)) = length (pre @ encode_event e) + length ?rest"
      by (simp add: kernel_buffer_def)
    have IH: "process_events path ((pre @ encode_event e) @ ?rest)
        (length (pre @ encode_event e) + length ?rest) (length (pre @ encode_event e))
        = scan_events path evs"
      using Cons.IH wfs by blast
    let ?B = "pre @ encode_event e @ ?rest"
    let ?L = "length pre + length (kernel_buffer (e # evs))"
    have "process_events path ?B ?L (length pre)
        = process_events path ?B ?L (length pre + EVENT_SIZE + unat (ev_len e))"
      using False wf lt by (subst process_events.simps) (simp add: at qualifies_append buf)
    also have "\<dots> = scan_events path evs"
      using IH by (simp add: next_i len)
    finally show ?thesis
      using False by (simp add: buf scan_events_def)
  qed
qed

lemma walk_offsets_kernel_buffer:
  assumes "\<forall>e \<in> set evs. wf_event e"
  shows "walk_offsets (pre @ kernel_buffer evs) (length pre + length (kernel_buffer evs)) (length pre)
           = map (\<lambda>k. length pre + length (kernel_buffer (take k evs))) [0..<Suc (length evs)]"
  using assms
proof (induction evs arbitrary: pre)
  case Nil
  then show ?case
    by (simp add: walk_offsets.simps kernel_buffer_def)
next
  case (Cons e evs)
  let ?rest = "kernel_buffer evs"
  have wf: "wf_event e" and wfs: "\<forall>e \<in> set evs. wf_event e"
    using Cons.prems by simp_all
  have buf: "pre @ kernel_buffer (e # evs) = pre @ encode_event e @ ?rest"
    by (simp add: kernel_buffer_def)
  have lt: "length pre < length pre + length (kernel_buffer (e # evs))"
    by (simp add: kernel_buffer_def length_encode_event EVENT_SIZE_def)
  have next_i: "length pre + EVENT_SIZE + unat (ev_len (event_at (pre @ encode_event e @ ?rest) (length pre)))
      = length (pre @ encode_event e)"
    using wf by (simp add: event_at_encode length_encode_event wf_event_def)
  have len: "length pre + length (kernel_buffer (e # evs)) = length (pre @ encode_event e) + length ?rest"
    by (simp add: kernel_buffer_def)
  have IH: "walk_offsets ((pre @ encode_event e) @ ?rest) (length (pre @ encode_event e) + length ?rest)
      (length (pre @ encode_event e))
      = map (\<lambda>k. length (pre @ encode_event e) + length (kernel_buffer (take k evs))) [0..<Suc (length evs)]"
    using Cons.IH wfs by blast
  have "walk_offsets (pre @ kernel_buffer (e # evs)) (length pre + length (kernel_buffer (e # evs))) (length pre)
      = length pre # walk_offsets ((pre @ encode_event e) @ ?rest) (length (pre @ encode_event e) + length ?rest)
          (length (pre @ encode_event e))"
    using lt by (subst walk_offsets.simps) (simp only: if_True buf next_i len append_assoc)
  also have "\<dots> = map (\<lambda>k. length pre + length (kernel_buffer (take k (e # evs)))) [0..<Suc (length (e # evs))]"
    unfolding IH by (simp add: upt_conv_Cons map_Suc_upt [symmetric] kernel_buffer_def del: upt_Suc)
  finally show ?case .
qed

lemma watch_reads_scan:
  "\<forall>r \<in> set rs. wf_read r \<Longrightarrow> watch_reads path rs = watch_scan path rs"
  by (induction path rs rule: watch_scan.induct)
     (simp_all add: wf_read_def process_events_kernel_buffer [of _ _ "[]", simplified] split: option.splits)

lemma watch_reads_skip:
  assumes "\<forall>b \<in> set bs. \<forall>e \<in> set b. wf_event e \<and> \<not> qualifies e"
  shows "watch_reads path (map ReadEvents bs @ rs) = watch_reads path rs"
  using assms
proof (induction bs)
  case Nil
  then show ?case by simp
next
  case (Cons b bs)
  then have "scan_events path b = None"
    by (simp add: scan_events_def find_None_iff)
  with Cons show ?case
    by (simp add: process_events_kernel_buffer [of _ _ "[]", simplified])
qed

lemma watch_reads_found:
  assumes "\<forall>r \<in> set rs. wf_read r"
  shows "watch_reads path rs = (WatchFound p, rest) \<longleftrightarrow>
    (\<exists>bs evs. rs = map ReadEvents bs @ ReadEvents evs # rest
       \<and> (\<forall>b \<in> set bs. \<forall>e \<in> set b. \<not> qualifies e) \<and> scan_events path evs = Some p)"
  using assms
proof (induction path rs rule: watch_reads.induct)
  case (1 path)
  then show ?case by simp
next
  case (2 path rs)
  then show ?case by (auto simp: Cons_eq_append_conv)
next
  case (3 path evs rs)
  have wf: "\<forall>e \<in> set evs. wf_event e"
    using "3.prems" by (simp add: wf_read_def)
  show ?case
  proof (cases "scan_events path evs")
    case None
    then have nq: "\<forall>e \<in> set evs. \<not> qualifies e"
      by (simp add: scan_events_def find_None_iff)
    have step: "watch_reads path (ReadEvents evs # rs) = watch_reads path rs"
      using None wf by (simp add: process_events_kernel_buffer [of _ _ "[]", simplified])
    have IH: "watch_reads path rs = (WatchFound p, rest) \<longleftrightarrow>
      (\<exists>bs evs. rs = map ReadEvents bs @ ReadEvents evs # rest
         \<and> (\<forall>b \<in> set bs. \<forall>e \<in> set b. \<not> qualifies e) \<and> scan_events path evs = Some p)"
      using "3.IH" [of "kernel_buffer evs"] "3.prems" None wf by (simp add: process_events_kernel_buffer [of _ _ "[]", simplified])
    show ?thesis
    proof
      assume "watch_reads path (ReadEvents evs # rs) = (WatchFound p, rest)"
      then obtain bs evs' where "rs = map ReadEvents bs @ ReadEvents evs' # rest"
        "\<forall>b \<in> set bs. \<forall>e \<in> set b. \<not> qualifies e" "scan_events path evs' = Some p"
        using step IH by auto
      with nq show "\<exists>bs evs'. ReadEvents evs # rs = map ReadEvents bs @ ReadEvents evs' # rest
         \<and> (\<forall>b \<in> set bs. \<forall>e \<in> set b. \<not> qualifies e) \<and> scan_events path evs' = Some p"
        by (intro exI [of _ "evs # bs"] exI [of _ evs']) simp
    next
      assume "\<exists>bs evs'. ReadEvents evs # rs = map ReadEvents bs @ ReadEvents evs' # rest
         \<and> (\<forall>b \<in> set bs. \<forall>e \<in> set b. \<not> qualifies e) \<and> scan_events path evs' = Some p"
      then obtain bs evs' where eq: "ReadEvents evs # rs = map ReadEvents bs @ ReadEvents evs' # rest"
        and nqs: "\<forall>b \<in> set bs. \<forall>e \<in> set b. \<not> qualifies e" and sc: "scan_events path evs' = Some p"
        by blast
      show "watch_reads path (ReadEvents evs # rs) = (WatchFound p, rest)"
      proof (cases bs)
        case Nil
        with eq sc None show ?thesis by simp
      next
        case (Cons b bs')
        with eq nqs sc have "rs = map ReadEvents bs' @ ReadEvents evs' # rest"
          "\<forall>b \<in> set bs'. \<forall>e \<in> set b. \<not> qualifies e"
          by simp_all
        with sc step IH show ?thesis by metis
      qed
    qed
  next
    case (Some q)
    then have "find qualifies evs \<noteq> None"
      by (auto simp: scan_events_def)
    then obtain e where "e \<in> set evs" "qualifies e"
      by (auto simp: find_None_iff)
    with Some wf show ?thesis
      by (auto simp: process_events_kernel_buffer [of _ _ "[]", simplified] Cons_eq_append_conv Cons_eq_map_conv)
  qed
qed

lemma watch_reads_found_shorter:
  "watch_reads path rs = (WatchFound p, rest) \<Longrightarrow> length rest < length rs"
  by (induction path rs rule: watch_reads.induct) (auto simp: Let_def split: option.splits)

lemma join_path_bound: "length (join_path d n) < PATH_MAX"
  by (auto simp: join_path_def snprintf_str_def PATH_MAX_def min_def)

lemma join_path_slash:
  assumes "ends_with_slash d" and "length (c_str d) + length (c_str n) < PATH_MAX"
  shows "join_path d n = c_str d @ c_str n"
  using assms by (simp add: join_path_def snprintf_str_def)


lemma watch_reads_fatal:
  assumes "\<forall>r \<in> set rs. wf_read r"
  shows "fst (watch_reads path rs) = WatchFatal \<longleftrightarrow>
    (\<exists>bs rest. rs = map ReadEvents bs @ ReadError # rest \<and> (\<forall>b \<in> set bs. \<forall>e \<in> set b. \<not> qualifies e))"
  using assms
proof (induction path rs rule: watch_reads.induct)
  case (1 path)
  then show ?case by simp
next
  case (2 path rs)
  then show ?case by (auto intro: exI [of _ "[]"])
next
  case (3 path evs rs)
  have wf: "\<forall>e \<in> set evs. wf_event e"
    using "3.prems" by (simp add: wf_read_def)
  then have step: "watch_reads path (ReadEvents evs # rs) =
      (case scan_events path evs of Some p \<Rightarrow> (WatchFound p, rs) | None \<Rightarrow> watch_reads path rs)"
    by (simp add: process_events_kernel_buffer [of _ _ "[]", simplified])
  show ?case
  proof (cases "scan_events path evs")
    case None
    then have nq: "\<forall>e \<in> set evs. \<not> qualifies e"
      by (simp add: scan_events_def find_None_iff)
    have IH: "fst (watch_reads path rs) = WatchFatal \<longleftrightarrow>
      (\<exists>bs rest. rs = map ReadEvents bs @ ReadError # rest \<and> (\<forall>b \<in> set bs. \<forall>e \<in> set b. \<not> qualifies e))"
      using "3.IH" [of "kernel_buffer evs"] "3.prems" None wf
      by (simp add: process_events_kernel_buffer [of _ _ "[]", simplified])
    show ?thesis
    proof
      assume "fst (watch_reads path (ReadEvents evs # rs)) = WatchFatal"
      then obtain bs rest where "rs = map ReadEvents bs @ ReadError # rest"
        "\<forall>b \<in> set bs. \<forall>e \<in> set b. \<not> qualifies e"
        using step None IH by auto
      with nq show "\<exists>bs rest. ReadEvents evs # rs = map ReadEvents bs @ ReadError # rest
          \<and> (\<forall>b \<in> set bs. \<forall>e \<in> set b. \<not> qualifies e)"
        by (intro exI [of _ "evs # bs"] exI [of _ rest]) simp
    next
      assume "\<exists>bs rest. ReadEvents evs # rs = map ReadEvents bs @ ReadError # rest
          \<and> (\<forall>b \<in> set bs. \<forall>e \<in> set b. \<not> qualifies e)"
      then obtain b bs rest where "rs = map ReadEvents bs @ ReadError # rest"
          "\<forall>b \<in> set bs. \<forall>e \<in> set b. \<not> qualifies e"
        by (auto simp: Cons_eq_append_conv Cons_eq_map_conv)
      with step None IH show "fst (watch_reads path (ReadEvents evs # rs)) = WatchFatal"
        by auto
    qed
  next
    case (Some p)
    then have "find qualifies evs \<noteq> None"
      by (auto simp: scan_events_def)
    then obtain e where "e \<in> set evs" "qualifies e"
      by (auto simp: find_None_iff)
    with step Some show ?thesis
      by (auto simp: Cons_eq_append_conv Cons_eq_map_conv)
  qed
qed

lemma watch_directory_keeps:
  "w_clipboard (snd (watch_directory path w)) = w_clipboard w
   \<and> w_clock (snd (watch_directory path w)) = w_clock w
   \<and> w_sent (snd (watch_directory path w)) = w_sent w
   \<and> w_replies (snd (watch_directory path w)) = w_replies w
   \<and> w_paths (snd (watch_directory path w)) = w_paths w"
  by (auto simp: watch_directory_def put_err_def split: prod.splits watch_result.splits)

lemma watch_directory_consumes:
  "watch_directory path w = (WatchFound p, w') \<Longrightarrow> length (w_reads w') < length (w_reads w)"
  by (auto simp: watch_directory_def split: if_splits prod.splits watch_result.splits
      dest: watch_reads_found_shorter)


lemma watch_reads_shrinks: "length (snd (watch_reads path rs)) \<le> length rs"
  by (induction path rs rule: watch_reads.induct) (auto simp: Let_def split: option.splits)

lemma watch_directory_reads_le: "length (w_reads (snd (watch_directory path w))) \<le> length (w_reads w)"
  using watch_reads_shrinks [of path "w_reads w"]
  by (auto simp: watch_directory_def put_err_def split: prod.splits watch_result.splits)

lemma watch_directory_scan:
  assumes "\<forall>r \<in> set (w_reads w). wf_read r" and "w_inotify_ok w" and "c_str dir \<in> w_watchable w"
  shows "watch_directory dir w =
    (case watch_scan dir (w_reads w) of
       (WatchFound p, rs) \<Rightarrow> (WatchFound p, w\<lparr>w_reads := rs\<rparr>)
     | (WatchFatal, rs) \<Rightarrow> (WatchFatal, put_err ''read'' (w\<lparr>w_reads := rs, w_open_fds := Suc (w_open_fds w)\<rparr>))
     | (WatchBlocked, rs) \<Rightarrow> (WatchBlocked, w\<lparr>w_reads := rs, w_open_fds := Suc (w_open_fds w)\<rparr>))"
  using assms by (simp add: watch_directory_def watch_reads_scan)

lemmas event_eval = create_event_def name_field_def qualifies_def is_image_ext_def
  strrchr_def strcmp_eq_def IN_CREATE_def IN_ISDIR_def

subsection \<open>Properties of the watcher\<close>

text \<open>
  C24: the C \<open>int\<close> arithmetic of the walk never overflows: for every read of
  well-formed events that fits the \<open>EVENT_BUF_LEN\<close>-byte buffer, the offsets
  \<open>i\<close> takes are exactly the event boundaries, ending at \<open>length\<close>, and all
  lie below \<open>INT_MAX\<close>, so the model's natural-number offsets are exact.
\<close>

theorem walk_offsets_fit_int:
  "\<forall>e \<in> set evs. wf_event e \<Longrightarrow> length (kernel_buffer evs) \<le> EVENT_BUF_LEN \<Longrightarrow>
   walk_offsets (kernel_buffer evs) (length (kernel_buffer evs)) 0
     = map (\<lambda>k. length (kernel_buffer (take k evs))) [0..<Suc (length evs)]
   \<and> (\<forall>i \<in> set (walk_offsets (kernel_buffer evs) (length (kernel_buffer evs)) 0).
        i \<le> length (kernel_buffer evs) \<and> i \<le> INT_MAX)"
proof -
  assume wf: "\<forall>e \<in> set evs. wf_event e" and fit: "length (kernel_buffer evs) \<le> EVENT_BUF_LEN"
  have eq: "walk_offsets (kernel_buffer evs) (length (kernel_buffer evs)) 0
     = map (\<lambda>k. length (kernel_buffer (take k evs))) [0..<Suc (length evs)]"
    using walk_offsets_kernel_buffer [OF wf, of "[]"] by simp
  have le: "length (kernel_buffer (take k evs)) \<le> length (kernel_buffer evs)" for k
    by (metis append_take_drop_id kernel_buffer_def concat_append map_append length_append le_add1)
  have "length (kernel_buffer evs) \<le> INT_MAX"
    using fit by (simp add: EVENT_BUF_LEN_def EVENT_SIZE_def INT_MAX_def)
  with eq le show ?thesis
    by (auto intro: le_trans)
qed

text \<open>
  C3: the watcher returns the path of a created image exactly when the reads it
  consumes are some batches without a qualifying event followed by a batch whose
  first qualifying event is that image; the reads up to that batch are consumed,
  and nothing else in the world changes (the descriptor it opened is closed).
\<close>

theorem watch_directory_found:
  assumes "\<forall>r \<in> set (w_reads w). wf_read r"
  shows "watch_directory path w = (WatchFound p, w') \<longleftrightarrow>
    w_inotify_ok w \<and> c_str path \<in> w_watchable w \<and>
    (\<exists>bs evs rest. w_reads w = map ReadEvents bs @ ReadEvents evs # rest
       \<and> (\<forall>b \<in> set bs. \<forall>e \<in> set b. \<not> qualifies e)
       \<and> scan_events path evs = Some p \<and> w' = w\<lparr>w_reads := rest\<rparr>)"
proof
  assume wd: "watch_directory path w = (WatchFound p, w')"
  then have ok: "w_inotify_ok w \<and> c_str path \<in> w_watchable w"
    by (auto simp: watch_directory_def split: if_splits)
  obtain r rest where wr: "watch_reads path (w_reads w) = (r, rest)"
    by fastforce
  with ok wd have "r = WatchFound p" and w': "w' = w\<lparr>w_reads := rest\<rparr>"
    by (cases r; simp add: watch_directory_def)+
  with wr watch_reads_found [OF assms] ok show "w_inotify_ok w \<and> c_str path \<in> w_watchable w \<and>
    (\<exists>bs evs rest. w_reads w = map ReadEvents bs @ ReadEvents evs # rest
       \<and> (\<forall>b \<in> set bs. \<forall>e \<in> set b. \<not> qualifies e)
       \<and> scan_events path evs = Some p \<and> w' = w\<lparr>w_reads := rest\<rparr>)"
    by blast
next
  assume "w_inotify_ok w \<and> c_str path \<in> w_watchable w \<and>
    (\<exists>bs evs rest. w_reads w = map ReadEvents bs @ ReadEvents evs # rest
       \<and> (\<forall>b \<in> set bs. \<forall>e \<in> set b. \<not> qualifies e)
       \<and> scan_events path evs = Some p \<and> w' = w\<lparr>w_reads := rest\<rparr>)"
  then obtain rest where ok: "w_inotify_ok w" "c_str path \<in> w_watchable w"
    and "\<exists>bs evs. w_reads w = map ReadEvents bs @ ReadEvents evs # rest
       \<and> (\<forall>b \<in> set bs. \<forall>e \<in> set b. \<not> qualifies e) \<and> scan_events path evs = Some p"
    and w': "w' = w\<lparr>w_reads := rest\<rparr>"
    by blast
  then have "watch_reads path (w_reads w) = (WatchFound p, rest)"
    using watch_reads_found [OF assms] by blast
  with ok w' show "watch_directory path w = (WatchFound p, w')"
    by (simp add: watch_directory_def)
qed

text \<open>
  C6: the byte-level walk over a kernel buffer (offsets, header fields read
  little-endian, names read as C strings) finds the same path as the scan of the
  event list the kernel encoded.
\<close>

theorem process_events_refines_scan:
  "\<forall>e \<in> set evs. wf_event e \<Longrightarrow>
   process_events path (kernel_buffer evs) (length (kernel_buffer evs)) 0 = scan_events path evs"
  using process_events_kernel_buffer [of evs path "[]"] by simp

text \<open>
  C25: the \<open>strrchr\<close>/\<open>strcmp\<close> test accepts a name exactly when the name
  (as a C string) ends in \<open>.png\<close>, \<open>.jpg\<close> or \<open>.jpeg\<close>, case-sensitively.
\<close>

theorem is_image_ext_iff:
  "is_image_ext n \<longleftrightarrow>
     suffix ''.png'' (c_str n) \<or> suffix ''.jpg'' (c_str n) \<or> suffix ''.jpeg'' (c_str n)"
proof -
  have sfx: "suffix e (c_str n) \<longleftrightarrow> strrchr_from (CHR ''.'') (c_str n) = Some e"
    if "e \<in> {''.png'', ''.jpg'', ''.jpeg''}" for e
    using that by (auto simp: strrchr_from_suffix)
  have "is_image_ext n \<longleftrightarrow> strrchr_from (CHR ''.'') (c_str n) \<in> Some ` {''.png'', ''.jpg'', ''.jpeg''}"
  proof (cases "strrchr_from (CHR ''.'') (c_str n)")
    case None
    then show ?thesis by (simp add: is_image_ext_def strrchr_def)
  next
    case (Some ext)
    then have "NUL \<notin> set ext"
      using strrchr_from_subset nul_notin_c_str by blast
    with Some show ?thesis
      by (auto simp: is_image_ext_def strrchr_def strcmp_eq_lit c_str_no_nul)
  qed
  then show ?thesis
    using sfx by auto
qed

text \<open>
  C22: batches of events none of which qualifies (other extensions, created
  directories) never make the watcher return: it consumes them and keeps waiting.
\<close>

theorem watch_directory_blocks:
  assumes "w_inotify_ok w" and "c_str path \<in> w_watchable w"
    and "w_reads w = map ReadEvents bs"
    and "\<forall>b \<in> set bs. \<forall>e \<in> set b. wf_event e \<and> \<not> qualifies e"
  shows "watch_directory path w = (WatchBlocked, w\<lparr>w_reads := [], w_open_fds := Suc (w_open_fds w)\<rparr>)"
proof -
  have "watch_reads path (w_reads w) = watch_reads path []"
    using watch_reads_skip [OF assms(4), of path "[]"] assms(3) by simp
  with assms(1,2) show ?thesis
    by (simp add: watch_directory_def)
qed

text \<open>
  C15: when a batch holds a qualifying event, the watcher returns the first one
  and the rest of that batch is discarded with it: a second image created in the
  same batch is never reported.
\<close>

theorem watch_directory_drops_batch_rest:
  assumes "w_inotify_ok w" and "c_str path \<in> w_watchable w"
    and "w_reads w = ReadEvents (e # evs) # rest"
    and "\<forall>x \<in> set (e # evs). wf_event x" and "qualifies e"
  shows "watch_directory path w = (WatchFound (join_path path (ev_name e)), w\<lparr>w_reads := rest\<rparr>)"
proof -
  have "scan_events path (e # evs) = Some (join_path path (ev_name e))"
    using assms(5) by (simp add: scan_events_def)
  then have "watch_reads path (w_reads w) = (WatchFound (join_path path (ev_name e)), rest)"
    using assms(3,4) by (simp add: process_events_kernel_buffer [of _ _ "[]", simplified])
  with assms(1,2) show ?thesis
    by (simp add: watch_directory_def)
qed

text \<open>
  C23: the watcher ends the process exactly when \<open>inotify_init\<close> fails,
  \<open>inotify_add_watch\<close> fails, or a read fails before any qualifying event.
\<close>

theorem watch_directory_fatal:
  assumes "\<forall>r \<in> set (w_reads w). wf_read r"
  shows "fst (watch_directory path w) = WatchFatal \<longleftrightarrow>
    \<not> w_inotify_ok w \<or> c_str path \<notin> w_watchable w \<or>
    (\<exists>bs rest. w_reads w = map ReadEvents bs @ ReadError # rest
       \<and> (\<forall>b \<in> set bs. \<forall>e \<in> set b. \<not> qualifies e))"
proof -
  have "fst (watch_directory path w) = WatchFatal \<longleftrightarrow>
      \<not> w_inotify_ok w \<or> c_str path \<notin> w_watchable w \<or> fst (watch_reads path (w_reads w)) = WatchFatal"
    by (auto simp: watch_directory_def split: prod.splits watch_result.splits)
  then show ?thesis
    using watch_reads_fatal [OF assms] by simp
qed

text \<open>
  C36: the joined path is the directory, one separator and the file name, and it
  always fits in \<open>PATH_MAX\<close> (longer paths are cut short).
\<close>

theorem join_path_separator:
  assumes "\<not> ends_with_slash d" and "length (c_str d) + length (c_str n) + 1 < PATH_MAX"
  shows "join_path d n = c_str d @ ''/'' @ c_str n \<and> length (join_path d n) < PATH_MAX"
  using assms join_path_bound by (simp add: join_path_def snprintf_str_def)

subsection \<open>Witnesses\<close>

theorem watch_directory_found_witness:
  "watch_directory ''/s'' (quiet_world\<lparr>w_watchable := {''/s''},
      w_reads := [ReadEvents [create_event IN_CREATE ''notes.txt''],
                  ReadEvents [create_event IN_CREATE ''shot1.png'']]\<rparr>)
   = (WatchFound ''/s/shot1.png'', quiet_world\<lparr>w_watchable := {''/s''}, w_reads := []\<rparr>)"
proof -
  let ?w = "quiet_world\<lparr>w_watchable := {''/s''},
      w_reads := [ReadEvents [create_event IN_CREATE ''notes.txt''],
                  ReadEvents [create_event IN_CREATE ''shot1.png'']]\<rparr>"
  have wf: "\<forall>r \<in> set (w_reads ?w). wf_read r"
    by (simp add: wf_read_def wf_create_event)
  have "w_inotify_ok ?w \<and> c_str ''/s'' \<in> w_watchable ?w \<and>
    (\<exists>bs evs rest. w_reads ?w = map ReadEvents bs @ ReadEvents evs # rest
       \<and> (\<forall>b \<in> set bs. \<forall>e \<in> set b. \<not> qualifies e)
       \<and> scan_events ''/s'' evs = Some ''/s/shot1.png''
       \<and> quiet_world\<lparr>w_watchable := {''/s''}, w_reads := []\<rparr> = ?w\<lparr>w_reads := rest\<rparr>)"
    by (simp add: quiet_world_def scan_events_def join_path_def ends_with_slash_def
        snprintf_str_def PATH_MAX_def event_eval)
       (rule exI [of _ "[[create_event IN_CREATE ''notes.txt'']]"], simp add: event_eval)
  then show ?thesis
    using watch_directory_found [OF wf] by blast
qed

theorem process_events_refines_scan_witness:
  "process_events ''/s''
        (kernel_buffer [create_event IN_CREATE ''notes.txt'', create_event IN_CREATE ''shot1.png''])
        (length (kernel_buffer [create_event IN_CREATE ''notes.txt'', create_event IN_CREATE ''shot1.png''])) 0
      = Some ''/s/shot1.png''"
proof -
  have wf: "\<forall>e \<in> set [create_event IN_CREATE ''notes.txt'', create_event IN_CREATE ''shot1.png'']. wf_event e"
    by (simp add: wf_create_event)
  show ?thesis
    using wf process_events_refines_scan [OF wf, of "''/s''"]
    by (simp add: scan_events_def join_path_def ends_with_slash_def snprintf_str_def PATH_MAX_def event_eval)
qed

theorem watch_directory_blocks_witness:
  "watch_directory ''/s'' (quiet_world\<lparr>w_watchable := {''/s''},
      w_reads := [ReadEvents [create_event IN_CREATE ''notes.txt'',
                              create_event (IN_CREATE OR IN_ISDIR) ''album.png'']]\<rparr>)
   = (WatchBlocked, quiet_world\<lparr>w_watchable := {''/s''}, w_reads := [], w_open_fds := 1\<rparr>)"
proof -
  let ?bs = "[[create_event IN_CREATE ''notes.txt'', create_event (IN_CREATE OR IN_ISDIR) ''album.png'']]"
  let ?w = "quiet_world\<lparr>w_watchable := {''/s''}, w_reads := map ReadEvents ?bs\<rparr>"
  have wf: "\<forall>b \<in> set ?bs. \<forall>e \<in> set b. wf_event e"
    by (simp add: wf_create_event)
  have h: "w_inotify_ok ?w" "c_str ''/s'' \<in> w_watchable ?w" "w_reads ?w = map ReadEvents ?bs"
    "\<forall>b \<in> set ?bs. \<forall>e \<in> set b. wf_event e \<and> \<not> qualifies e"
    using wf by (simp_all add: quiet_world_def) (simp add: event_eval)
  show ?thesis
    using watch_directory_blocks [OF h] by (simp add: quiet_world_def)
qed

theorem watch_directory_drops_batch_rest_witness:
  "watch_directory ''/s'' (quiet_world\<lparr>w_watchable := {''/s''},
      w_reads := [ReadEvents [create_event IN_CREATE ''a.png'', create_event IN_CREATE ''b.jpg'']]\<rparr>)
   = (WatchFound ''/s/a.png'', quiet_world\<lparr>w_watchable := {''/s''}, w_reads := []\<rparr>)"
proof -
  let ?e = "create_event IN_CREATE ''a.png''"
  let ?evs = "[create_event IN_CREATE ''b.jpg'']"
  let ?w = "quiet_world\<lparr>w_watchable := {''/s''}, w_reads := [ReadEvents (?e # ?evs)]\<rparr>"
  have wf: "\<forall>x \<in> set (?e # ?evs). wf_event x"
    by (simp add: wf_create_event)
  have h: "w_inotify_ok ?w" "c_str ''/s'' \<in> w_watchable ?w" "w_reads ?w = ReadEvents (?e # ?evs) # []"
    "\<forall>x \<in> set (?e # ?evs). wf_event x" "qualifies ?e"
    using wf by (simp_all add: quiet_world_def) (simp add: event_eval)
  show ?thesis
    using watch_directory_drops_batch_rest [OF h]
    by (simp add: quiet_world_def join_path_def ends_with_slash_def snprintf_str_def PATH_MAX_def
        create_event_def name_field_def)
qed

theorem watch_directory_fatal_witness:
  "fst (watch_directory ''/s'' (quiet_world\<lparr>w_watchable := {''/s''},
      w_reads := [ReadEvents [create_event IN_CREATE ''notes.txt''], ReadError]\<rparr>)) = WatchFatal"
proof -
  let ?w = "quiet_world\<lparr>w_watchable := {''/s''},
      w_reads := [ReadEvents [create_event IN_CREATE ''notes.txt''], ReadError]\<rparr>"
  have wf: "\<forall>r \<in> set (w_reads ?w). wf_read r"
    by (simp add: wf_read_def wf_create_event)
  have "\<exists>bs rest. w_reads ?w = map ReadEvents bs @ ReadError # rest
       \<and> (\<forall>b \<in> set bs. \<forall>e \<in> set b. \<not> qualifies e)"
    by (rule exI [of _ "[[create_event IN_CREATE ''notes.txt'']]"]) (simp add: event_eval)
  then show ?thesis
    using watch_directory_fatal [OF wf] by blast
qed

theorem join_path_separator_witness:
  "join_path ''/s'' ''shot1.png'' = ''/s/shot1.png'' \<and> length (join_path ''/s'' ''shot1.png'') < PATH_MAX"
proof -
  have h: "\<not> ends_with_slash ''/s''" "length (c_str ''/s'') + length (c_str ''shot1.png'') + 1 < PATH_MAX"
    by (simp_all add: ends_with_slash_def PATH_MAX_def)
  show ?thesis
    using join_path_separator [OF h] by (simp add: PATH_MAX_def)
qed


theorem walk_offsets_fit_int_witness:
  "wf_event (create_event IN_CREATE ''a.png'') \<and> wf_event (create_event IN_CREATE ''notes.txt'')
   \<and> length (kernel_buffer [create_event IN_CREATE ''a.png'', create_event IN_CREATE ''notes.txt'']) \<le> EVENT_BUF_LEN
   \<and> walk_offsets (kernel_buffer [create_event IN_CREATE ''a.png'', create_event IN_CREATE ''notes.txt''])
       (length (kernel_buffer [create_event IN_CREATE ''a.png'', create_event IN_CREATE ''notes.txt''])) 0
     = [0, 32, 64]"
proof -
  have wf: "wf_event (create_event IN_CREATE ''a.png'')" "wf_event (create_event IN_CREATE ''notes.txt'')"
    by (rule wf_create_event, simp)+
  have l: "length (encode_event (create_event IN_CREATE ''a.png'')) = 32"
    "length (encode_event (create_event IN_CREATE ''notes.txt'')) = 32"
    by (simp_all add: length_encode_event EVENT_SIZE_def create_event_def name_field_def)
  show ?thesis
    using walk_offsets_fit_int [of "[create_event IN_CREATE ''a.png'', create_event IN_CREATE ''notes.txt'']"] wf l
    by (simp add: kernel_buffer_def EVENT_BUF_LEN_def EVENT_SIZE_def upt_conv_Cons del: upt_Suc)
qed

end
