(* ===== verification/Json.thy ===== *)
theory Json
  imports Os
begin

text \<open>
  The response parser, \<open>extract_link_from_response\<close> in \<open>src/main.c\<close>
  (lines 27--45), and the part of cJSON it uses. cJSON's parser is a library the
  program calls; here it is the capability \<open>json_parse\<close> of type
  \<open>json_parser\<close>, which maps the text to a document or to the offset where
  parsing stopped (what \<open>cJSON_GetErrorPtr\<close> points at). The lookups
  \<open>cJSON_GetObjectItemCaseSensitive\<close> and \<open>cJSON_IsString\<close> and the copy
  \<open>strdup\<close> are modelled as cJSON and libc implement them: a lookup in a
  missing or non-object item yields \<open>NULL\<close>; in an object it yields the
  first member whose key equals the name as C strings.
\<close>

datatype json =
    JFalse
  | JTrue
  | JNull
  | JNumber string
  | JString string
  | JArray "json list"
  | JObject "(string \<times> json) list"

datatype json_result = JsonError nat | JsonOk json

type_synonym json_parser = "string \<Rightarrow> json_result"

text \<open>The member walk of \<open>get_object_item\<close> (case-sensitive, first match wins).\<close>

fun object_member :: "(string \<times> json) list \<Rightarrow> string \<Rightarrow> json option" where
  "object_member [] name = None"
| "object_member ((k, v) # kvs) name =
     (if c_str k = name then Some v else object_member kvs name)"

text \<open>
  \<open>cJSON_GetObjectItemCaseSensitive(object, name)\<close>: \<open>NULL\<close> for a \<open>NULL\<close>
  object; for an array the first child has no key, so \<open>NULL\<close>; for a scalar
  there are no children, so \<open>NULL\<close>.
\<close>

fun get_object_item :: "json option \<Rightarrow> string \<Rightarrow> json option" where
  "get_object_item (Some (JObject kvs)) name = object_member kvs name"
| "get_object_item _ name = None"

text \<open>\<open>cJSON_IsString(link) && link->valuestring != NULL\<close>, then \<open>strdup\<close>.\<close>

fun string_value :: "json option \<Rightarrow> string option" where
  "string_value (Some (JString s)) = Some (c_str s)"
| "string_value _ = None"

text \<open>
  \<open>extract_link_from_response(json_string)\<close>: on a parse failure it prints
  \<open>Error before: \<close> and the rest of the text from the error offset, and
  returns \<open>NULL\<close>; otherwise it returns the copied \<open>data.link\<close> string, or
  \<open>NULL\<close> when that is missing or not a string. The parsed document is freed
  on both paths (\<open>cJSON_Delete\<close>) and is not part of the state.
\<close>

definition extract_link_from_response ::
  "json_parser \<Rightarrow> cbuf \<Rightarrow> world \<Rightarrow> string option \<times> world" where
  "extract_link_from_response json_parse js w =
     (case json_parse (c_str js) of
        JsonError pos \<Rightarrow> (None, put_err (''Error before: '' @ drop pos (c_str js)) w)
      | JsonOk doc \<Rightarrow>
          (string_value (get_object_item (get_object_item (Some doc) ''data'') ''link''), w))"

subsection \<open>A reference serialiser\<close>

text \<open>
  The text a server sends for a document, in compact form with the two escapes
  a string needs (\<open>"\<close> and \<open>\\\<close>); strings are written without further
  escaping. It is the input side of the examples and of the contract below.
\<close>

fun json_escape :: "string \<Rightarrow> string" where
  "json_escape [] = []"
| "json_escape (c # cs) =
     (if c = CHR 0x22 \<or> c = CHR 0x5C then CHR 0x5C # c # json_escape cs else c # json_escape cs)"

definition json_string :: "string \<Rightarrow> string" where
  "json_string s = CHR 0x22 # json_escape s @ [CHR 0x22]"

definition link_response :: "string \<Rightarrow> string" where
  "link_response link =
     ''{'' @ json_string ''data'' @ '':{'' @ json_string ''link'' @ '':'' @ json_string link @ ''}}''"

subsection \<open>Properties of the response parser\<close>

lemma extract_link_frame: "\<exists>e. snd (extract_link_from_response jp js w) = w\<lparr>w_err := e\<rparr>"
  by (auto simp: extract_link_from_response_def put_err_def split: json_result.splits
      intro: exI [of _ "w_err w"])

lemma extract_link_fst:
  "fst (extract_link_from_response jp js w) =
     (case jp (c_str js) of
        JsonError pos \<Rightarrow> None
      | JsonOk doc \<Rightarrow> string_value (get_object_item (get_object_item (Some doc) ''data'') ''link''))"
  by (simp add: extract_link_from_response_def split: json_result.splits)

text \<open>
  C7: \<open>extract_link_from_response\<close> returns a link exactly when the text
  parses to a document whose member \<open>data\<close> is an object whose first member
  \<open>link\<close> is a string; the link is that string up to its first \<open>NUL\<close>.
\<close>

theorem extract_link_characterisation:
  "fst (extract_link_from_response json_parse js w) = Some link \<longleftrightarrow>
     (\<exists>doc d s. json_parse (c_str js) = JsonOk doc \<and> get_object_item (Some doc) ''data'' = Some d
        \<and> get_object_item (Some d) ''link'' = Some (JString s) \<and> link = c_str s)"
proof -
  have sv: "string_value j = Some link \<longleftrightarrow> (\<exists>s. j = Some (JString s) \<and> link = c_str s)" for j
    by (cases j rule: string_value.cases) auto
  have go: "get_object_item j k = Some v \<Longrightarrow> j = Some (the j)" for j k v
    by (cases j) auto
  show ?thesis
  proof
    assume "fst (extract_link_from_response json_parse js w) = Some link"
    then obtain doc s where p: "json_parse (c_str js) = JsonOk doc"
      and l: "get_object_item (get_object_item (Some doc) ''data'') ''link'' = Some (JString s)"
      and ls: "link = c_str s"
      by (auto simp: extract_link_fst sv split: json_result.splits)
    from l go have "get_object_item (Some doc) ''data'' = Some (the (get_object_item (Some doc) ''data''))"
      by blast
    with p l ls show "\<exists>doc d s. json_parse (c_str js) = JsonOk doc \<and> get_object_item (Some doc) ''data'' = Some d
        \<and> get_object_item (Some d) ''link'' = Some (JString s) \<and> link = c_str s"
      by (metis)
  next
    assume "\<exists>doc d s. json_parse (c_str js) = JsonOk doc \<and> get_object_item (Some doc) ''data'' = Some d
        \<and> get_object_item (Some d) ''link'' = Some (JString s) \<and> link = c_str s"
    then show "fst (extract_link_from_response json_parse js w) = Some link"
      by (auto simp: extract_link_fst)
  qed
qed

text \<open>
  C26: a parse failure and a missing or mistyped \<open>data.link\<close> both yield
  \<open>NULL\<close>; they differ only in the diagnostic: on a parse failure the result
  is \<open>NULL\<close> and the one line written is \<open>Error before:\<close> followed by the text
  from the error offset; on a parsed document nothing is written.
\<close>

theorem extract_link_diagnostic:
  "(json_parse (c_str js) = JsonError pos \<longrightarrow>
      extract_link_from_response json_parse js w = (None, put_err (''Error before: '' @ drop pos (c_str js)) w))
   \<and> (json_parse (c_str js) = JsonOk doc \<longrightarrow>
      snd (extract_link_from_response json_parse js w) = w)"
  by (simp add: extract_link_from_response_def)

subsection \<open>Witnesses\<close>

theorem extract_link_diagnostic_witness:
  "extract_link_from_response (\<lambda>_. JsonError 1) ''{x'' quiet_world
     = (None, put_err ''Error before: x'' quiet_world)
   \<and> snd (extract_link_from_response (\<lambda>_. JsonOk (JObject [])) ''{}'' quiet_world) = quiet_world"
  using extract_link_diagnostic [of "\<lambda>_. JsonError 1" "''{x''" 1 quiet_world]
    extract_link_diagnostic [of "\<lambda>_. JsonOk (JObject [])" "''{}''" _ quiet_world "JObject []"]
  by simp

end
