(* ===== verification/Uploader.thy ===== *)
theory Uploader
  imports Json
begin

text \<open>
  The image uploader, \<open>upload_image\<close> in \<open>src/main.c\<close> (lines 83--135), with
  its helpers \<open>file_exists\<close> (61--63), \<open>get_response\<close> (65--81) and
  \<open>get_image_name\<close> (137--165). The request it configures on the libcurl easy
  handle is a value of \<open>curl_request\<close>; \<open>curl_easy_perform\<close> takes the next
  reply of the network, hands its body chunks to the write callback in order,
  and reports the reply's code, or \<open>CURLE_WRITE_ERROR\<close> when the callback
  refuses a chunk. The response buffer \<open>struct memory_struct\<close> is a record
  whose \<open>size\<close> is a 64-bit \<open>size_t\<close>; \<open>chunk_ok\<close> is its invariant
  (a block of \<open>size + 1\<close> bytes ending in \<open>NUL\<close>), kept by every sequence of
  callback calls. \<open>upload_image_frame\<close> says which fields of the world an
  upload changes.
\<close>

subsection \<open>get_image_name\<close>

definition is_path_sep :: "char \<Rightarrow> bool" where
  "is_path_sep c \<longleftrightarrow> c = CHR ''/'' \<or> c = CHR 0x5C"

text \<open>
  One call of \<open>strtok_r(s, "/\\", &saveptr)\<close> on the rest \<open>s\<close> of the
  string: skip separators; at the end, \<open>NULL\<close>; otherwise the token up to the
  next separator and the rest after it (the separator is overwritten by
  \<open>NUL\<close> and \<open>saveptr\<close> points past it).
\<close>

definition strtok_step :: "string \<Rightarrow> (string \<times> string) option" where
  "strtok_step s =
     (let s' = dropWhile is_path_sep s in
      if s' = [] then None
      else Some (takeWhile (\<lambda>c. \<not> is_path_sep c) s', drop 1 (dropWhile (\<lambda>c. \<not> is_path_sep c) s')))"

text \<open>The \<open>while (token != NULL)\<close> loop (lines 151--155), keeping the last token.\<close>

function last_token :: "string \<Rightarrow> string option \<Rightarrow> string option" where
  "last_token s prev =
     (case strtok_step s of
        None \<Rightarrow> prev
      | Some (tok, rest) \<Rightarrow> last_token rest (Some tok))"
  by pat_completeness auto
termination
proof (relation "measure (\<lambda>(s, prev). length s)")
  fix s prev x tok rest
  assume st: "strtok_step s = Some x" and x: "(tok, rest) = x"
  let ?s' = "dropWhile is_path_sep s"
  have ne: "?s' \<noteq> []" and r: "rest = drop 1 (dropWhile (\<lambda>c. \<not> is_path_sep c) ?s')"
    using st x by (auto simp: strtok_step_def Let_def split: if_splits)
  have "length (dropWhile (\<lambda>c. \<not> is_path_sep c) ?s') \<le> length ?s'"
    by (rule length_dropWhile_le)
  moreover have "length ?s' \<le> length s"
    by (rule length_dropWhile_le)
  ultimately show "((rest, Some tok), s, prev) \<in> measure (\<lambda>(s, prev). length s)"
    using ne r by (cases "dropWhile (\<lambda>c. \<not> is_path_sep c) ?s'") auto
qed auto

declare last_token.simps [simp del]

text \<open>
  \<open>get_image_name(image_path)\<close>: \<open>NULL\<close> for an empty path or one made of
  separators only, else a copy of the last token. The copy of the path is freed;
  the returned copy is the caller's (and \<open>upload_image\<close> never frees it).
\<close>

definition get_image_name :: "cbuf \<Rightarrow> string option" where
  "get_image_name image_path =
     (if c_str image_path = [] then None else last_token (c_str image_path) None)"

text \<open>
  Reference for \<open>get_image_name\<close>: the last path segment, after trailing
  separators are dropped, or nothing when the path has no segment.
\<close>

definition last_segment :: "string \<Rightarrow> string option" where
  "last_segment s =
     (let t = dropWhile is_path_sep (rev s) in
      if t = [] then None else Some (rev (takeWhile (\<lambda>c. \<not> is_path_sep c) t)))"

subsection \<open>The response buffer\<close>

record memory_struct =
  memory :: cbuf
  msize :: "64 word"

text \<open>libcurl never passes more than \<open>CURL_MAX_WRITE_SIZE\<close> bytes to one callback call.\<close>

definition CURL_MAX_WRITE_SIZE :: nat where
  "CURL_MAX_WRITE_SIZE = 16384"

definition chunks_fit :: "cbuf list \<Rightarrow> bool" where
  "chunks_fit cs \<longleftrightarrow> (\<forall>c \<in> set cs. length c \<le> CURL_MAX_WRITE_SIZE)"

text \<open>
  \<open>get_response(buffer, size, nmemb, userp)\<close> (lines 65--81). The sizes are
  \<open>size_t\<close>: \<open>size * nmemb\<close> and \<open>mem->size + realsize + 1\<close> wrap modulo
  \<open>2^64\<close>. \<open>realloc\<close> fails when the request exceeds what the heap can give
  (\<open>w_heap\<close>); it then leaves the old block alone, prints to \<open>stderr\<close> and
  returns 0. Otherwise the block keeps the old \<open>size\<close> bytes, gets the new
  bytes and a \<open>NUL\<close>. (When the sum wraps, the C writes past the block; the
  lemma \<open>get_response_no_wrap\<close> shows that libcurl's chunk limit excludes it.)
\<close>

definition get_response ::
  "cbuf \<Rightarrow> 64 word \<Rightarrow> 64 word \<Rightarrow> memory_struct \<Rightarrow> world \<Rightarrow> 64 word \<times> memory_struct \<times> world" where
  "get_response buffer sz nmemb mem w =
     (let realsize = sz * nmemb;
          req = msize mem + realsize + 1
      in if w_heap w < unat req
         then (0, mem, put_err ''Not enough memory (realloc returned NULL)'' w)
         else (realsize,
               \<lparr>memory = take (unat (msize mem)) (memory mem) @ take (unat realsize) buffer @ [NUL],
                msize = msize mem + realsize\<rparr>, w))"

text \<open>
  The invariant of the response buffer between two callback calls: the block
  holds \<open>size + 1\<close> bytes, the last of them the terminating \<open>NUL\<close>, and its
  size is below what the heap can give.
\<close>

definition chunk_ok :: "memory_struct \<Rightarrow> world \<Rightarrow> bool" where
  "chunk_ok mem w \<longleftrightarrow>
     length (memory mem) = Suc (unat (msize mem)) \<and> last (memory mem) = NUL \<and> unat (msize mem) < w_heap w"

text \<open>
  The transfer's calls of the write callback, one per body chunk, each with
  \<open>size = 1\<close> and \<open>nmemb\<close> the chunk's length; a return value other than
  \<open>nmemb\<close> aborts the transfer.
\<close>

fun deliver :: "cbuf list \<Rightarrow> memory_struct \<Rightarrow> world \<Rightarrow> bool \<times> memory_struct \<times> world" where
  "deliver [] mem w = (True, mem, w)"
| "deliver (c # cs) mem w =
     (case get_response c 1 (word_of_nat (length c)) mem w of
        (ret, mem', w') \<Rightarrow>
          (if ret \<noteq> word_of_nat (length c) then (False, mem', w') else deliver cs mem' w'))"

text \<open>
  \<open>curl_easy_perform\<close>: the request goes out (it is recorded in
  \<open>w_sent\<close>), the next reply comes back, its body is delivered, and the
  result code is the reply's unless the callback aborted the transfer.
\<close>

definition curl_perform ::
  "curl_request \<Rightarrow> memory_struct \<Rightarrow> world \<Rightarrow> int \<times> memory_struct \<times> world" where
  "curl_perform req mem w =
     (let r = next_reply w;
          w0 = w\<lparr>w_replies := drop 1 (w_replies w), w_sent := w_sent w @ [req]\<rparr>
      in case deliver (rp_chunks r) mem w0 of
           (ok, mem', w') \<Rightarrow> (if ok then rp_code r else CURLE_WRITE_ERROR, mem', w'))"

subsection \<open>upload_image\<close>

text \<open>\<open>file_exists\<close>: \<open>access(filename, F_OK) != -1\<close> (lines 61--63).\<close>

definition file_exists :: "cbuf \<Rightarrow> world \<Rightarrow> bool" where
  "file_exists filename w \<longleftrightarrow> c_str filename \<in> w_paths w"

text \<open>
  The options set on the handle (lines 95--117): a \<open>POST\<close> to the imgur
  endpoint, redirects followed, \<open>https\<close> as default protocol, the
  authorization header formatted into a 256-byte buffer, a three-part MIME body
  (the file as \<open>image\<close>, the text \<open>image\<close> as \<open>type\<close>, and a third part
  added but never named or filled, since its two calls are commented out), and a
  30-second timeout.
\<close>

definition auth_header :: "cbuf \<Rightarrow> string" where
  "auth_header client_id = snprintf_str 256 (''Authorization: Client-ID '' @ c_str client_id)"

definition upload_request :: "cbuf \<Rightarrow> cbuf \<Rightarrow> curl_request" where
  "upload_request image_path client_id =
     \<lparr>rq_method = ''POST'', rq_url = ''https://api.imgur.com/3/image'', rq_follow = True,
      rq_protocol = ''https'', rq_headers = [auth_header client_id],
      rq_mime = [\<lparr>mp_name = Some ''image'', mp_data = MimeFile (c_str image_path)\<rparr>,
                 \<lparr>mp_name = Some ''type'', mp_data = MimeText ''image''\<rparr>,
                 \<lparr>mp_name = None, mp_data = MimeNone\<rparr>],
      rq_timeout = 30\<rparr>"

text \<open>
  \<open>upload_image(image_path, client_id)\<close> (lines 83--135). \<open>w_leaked\<close> counts
  the allocations never freed: the name \<open>get_image_name\<close> returns (line 88)
  and the header list (line 102, no \<open>curl_slist_free_all\<close>). The response
  buffer starts as \<open>malloc(1)\<close>, one byte of uninitialised memory
  (\<open>w_malloc_byte\<close>). \<open>cJSON_Parse\<close> reads the buffer up to the first
  \<open>NUL\<close>: after a callback call the block ends in one, but when no callback
  ran, \<open>strlen\<close> runs past the one-byte block into whatever the heap holds
  next (\<open>w_after_block\<close>), so the text handed on is the block followed by
  those bytes.
\<close>

definition upload_image ::
  "json_parser \<Rightarrow> cbuf \<Rightarrow> cbuf \<Rightarrow> world \<Rightarrow> string option \<times> world" where
  "upload_image json_parse image_path client_id w =
     (if \<not> file_exists image_path w
      then (None, put_err ''File provided does not exist'' w)
      else
        (let w1 = (if get_image_name image_path = None then w
                   else w\<lparr>w_leaked := Suc (w_leaked w)\<rparr>)
         in if \<not> w_curl_ok w1 then (None, w1)
            else
              (let w2 = w1\<lparr>w_leaked := Suc (w_leaked w1)\<rparr>;
                   chunk = \<lparr>memory = [w_malloc_byte w2], msize = 0\<rparr>
               in case curl_perform (upload_request image_path client_id) chunk w2 of
                    (res, chunk', w3) \<Rightarrow>
                      (let w4 = put_out (''Response code: '' @ string_of_int res) w3
                       in if res \<noteq> CURLE_OK
                          then (None, put_err (''Image upload failed: '' @ string_of_int res) w4)
                          else extract_link_from_response json_parse (memory chunk' @ w_after_block w4) w4))))"

subsection \<open>get_image_name is the last path segment\<close>

lemma segment_core:
  assumes "\<forall>x \<in> set pre. is_path_sep x" and "tok \<noteq> []" and "\<forall>x \<in> set tok. \<not> is_path_sep x"
  shows "dropWhile is_path_sep (rev tok @ rev pre) = rev tok @ rev pre"
    and "takeWhile (\<lambda>c. \<not> is_path_sep c) (rev tok @ rev pre) = rev tok"
proof -
  obtain t x where "rev tok = x # t"
    using assms(2) by (cases "rev tok") auto
  moreover have "\<not> is_path_sep x"
    using assms(3) calculation by (metis list.set_intros(1) set_rev)
  ultimately show "dropWhile is_path_sep (rev tok @ rev pre) = rev tok @ rev pre"
    by simp
  have "takeWhile (\<lambda>c. \<not> is_path_sep c) (rev pre) = []"
    using assms(1) by (cases "rev pre") auto
  moreover have "takeWhile (\<lambda>c. \<not> is_path_sep c) (rev tok @ rev pre)
      = rev tok @ takeWhile (\<lambda>c. \<not> is_path_sep c) (rev pre)"
    by (rule takeWhile_append2) (use assms(3) in simp)
  ultimately show "takeWhile (\<lambda>c. \<not> is_path_sep c) (rev tok @ rev pre) = rev tok"
    by simp
qed

lemma segment_end:
  assumes "\<forall>x \<in> set pre. is_path_sep x" and "tok \<noteq> []" and "\<forall>x \<in> set tok. \<not> is_path_sep x"
  shows "last_segment (pre @ tok) = Some tok"
  using segment_core [OF assms] assms(2) by (simp add: last_segment_def)

lemma segment_more:
  assumes "\<forall>x \<in> set pre. is_path_sep x" and "tok \<noteq> []" and "\<forall>x \<in> set tok. \<not> is_path_sep x"
    and "is_path_sep c"
  shows "last_segment (pre @ tok @ c # rest) = Some (case last_segment rest of None \<Rightarrow> tok | Some y \<Rightarrow> y)"
proof (cases "\<forall>x \<in> set rest. is_path_sep x")
  case True
  have "dropWhile is_path_sep (rev rest @ c # rev tok @ rev pre) = dropWhile is_path_sep (c # rev tok @ rev pre)"
    by (rule dropWhile_append2) (use True in simp)
  then have "dropWhile is_path_sep (rev (pre @ tok @ c # rest)) = rev tok @ rev pre"
    using assms(4) by (simp add: segment_core [OF assms(1-3)])
  moreover have "last_segment rest = None"
    using True by (simp add: last_segment_def dropWhile_eq_Nil_conv)
  ultimately show ?thesis
    using segment_core [OF assms(1-3)] assms(2) by (simp add: last_segment_def)
next
  case False
  then obtain x where x: "x \<in> set (rev rest)" "\<not> is_path_sep x"
    by auto
  let ?t = "dropWhile is_path_sep (rev rest)"
  have d: "dropWhile is_path_sep (rev (pre @ tok @ c # rest)) = ?t @ c # rev tok @ rev pre"
    using x by (simp add: dropWhile_append1)
  have tne: "?t \<noteq> []"
    using x by (auto simp: dropWhile_eq_Nil_conv)
  have "takeWhile (\<lambda>c. \<not> is_path_sep c) (?t @ c # rev tok @ rev pre)
      = takeWhile (\<lambda>c. \<not> is_path_sep c) ?t"
  proof (cases "\<forall>y \<in> set ?t. \<not> is_path_sep y")
    case True
    then have "takeWhile (\<lambda>c. \<not> is_path_sep c) ?t = ?t"
      by (simp add: takeWhile_eq_all_conv)
    moreover have "takeWhile (\<lambda>c. \<not> is_path_sep c) (?t @ c # rev tok @ rev pre)
        = ?t @ takeWhile (\<lambda>c. \<not> is_path_sep c) (c # rev tok @ rev pre)"
      by (rule takeWhile_append2) (use True in simp)
    moreover have "takeWhile (\<lambda>c. \<not> is_path_sep c) (c # rev tok @ rev pre) = []"
      using assms(4) by simp
    ultimately show ?thesis
      by (metis append_Nil2)
  next
    case False
    then show ?thesis by (auto simp: takeWhile_append1)
  qed
  with d tne False show ?thesis
    by (auto simp: last_segment_def dropWhile_eq_Nil_conv)
qed

lemma last_token_eq:
  "last_token s prev = (case last_segment s of None \<Rightarrow> prev | Some x \<Rightarrow> Some x)"
proof (induction s prev rule: last_token.induct)
  case (1 s prev)
  show ?case
  proof (cases "strtok_step s")
    case None
    then have "\<forall>c \<in> set s. is_path_sep c"
      by (simp add: strtok_step_def Let_def dropWhile_eq_Nil_conv split: if_splits)
    then have "last_segment s = None"
      by (simp add: last_segment_def dropWhile_eq_Nil_conv)
    with None show ?thesis
      by (simp add: last_token.simps [of s])
  next
    case (Some x)
    then obtain tok rest where x: "x = (tok, rest)" by fastforce
    define pre where "pre = takeWhile is_path_sep s"
    define s' where "s' = dropWhile is_path_sep s"
    have s: "s = pre @ s'" by (simp add: pre_def s'_def)
    have pre: "\<forall>c \<in> set pre. is_path_sep c" by (auto simp: pre_def dest: set_takeWhileD)
    have ne: "s' \<noteq> []" and tok: "tok = takeWhile (\<lambda>c. \<not> is_path_sep c) s'"
      and rest: "rest = drop 1 (dropWhile (\<lambda>c. \<not> is_path_sep c) s')"
      using Some x by (auto simp: strtok_step_def s'_def Let_def split: if_splits)
    have hd: "\<not> is_path_sep (hd s')"
      using ne by (simp add: s'_def hd_dropWhile)
    then have tne: "tok \<noteq> []"
      using ne tok by (cases s') auto
    have tokns: "\<forall>c \<in> set tok. \<not> is_path_sep c"
      using tok by (auto dest: set_takeWhileD)
    have IH: "last_token rest (Some tok) = (case last_segment rest of None \<Rightarrow> Some tok | Some y \<Rightarrow> Some y)"
      using "1.IH" Some x by blast
    have eq: "last_token s prev = last_token rest (Some tok)"
      using Some x by (simp add: last_token.simps [of s])
    have seg: "last_segment s = Some (case last_segment rest of None \<Rightarrow> tok | Some y \<Rightarrow> y)"
    proof (cases "dropWhile (\<lambda>c. \<not> is_path_sep c) s'")
      case Nil
      then have stok: "s' = tok"
        using tok takeWhile_dropWhile_id [of "\<lambda>c. \<not> is_path_sep c" s'] by (metis append_Nil2)
      have "rest = []"
        using rest Nil by simp
      with \<open>rest = []\<close> show ?thesis
        using s stok segment_end [OF pre tne tokns] by (simp add: last_segment_def)
    next
      case (Cons c r)
      then have "is_path_sep c"
        using hd_dropWhile [of "\<lambda>c. \<not> is_path_sep c" s'] by fastforce
      moreover have "s = pre @ tok @ c # rest"
        using s tok rest Cons takeWhile_dropWhile_id [of "\<lambda>c. \<not> is_path_sep c" s'] by simp
      ultimately show ?thesis
        using segment_more [OF pre tne tokns] by simp
    qed
    show ?thesis
      using eq IH seg by (simp split: option.splits)
  qed
qed


subsection \<open>The response buffer collects the body\<close>

lemma get_response_no_wrap:
  assumes "unat (msize mem) \<le> w_heap w" and "w_heap w < 2 ^ 63" and "length c \<le> CURL_MAX_WRITE_SIZE"
  shows "unat (msize mem + 1 * word_of_nat (length c) + 1) = unat (msize mem) + length c + 1"
proof -
  have lt: "unat (msize mem) + length c + 1 < 2 ^ 64"
    using assms by (simp add: CURL_MAX_WRITE_SIZE_def)
  have lc: "length c < 2 ^ 64"
    using assms by (simp add: CURL_MAX_WRITE_SIZE_def)
  show ?thesis
    using lc lt by (simp add: unat_word_ariths unat_of_nat)
qed

lemma get_response_step:
  assumes "unat (msize mem) \<le> w_heap w" and "w_heap w < 2 ^ 63" and "length c \<le> CURL_MAX_WRITE_SIZE"
    and "unat (msize mem) + length c + 1 \<le> w_heap w"
  shows "get_response c 1 (word_of_nat (length c)) mem w =
    (word_of_nat (length c),
     \<lparr>memory = take (unat (msize mem)) (memory mem) @ c @ [NUL],
      msize = msize mem + word_of_nat (length c)\<rparr>, w)"
proof -
  have lc: "length c < 2 ^ 64"
    using assms by (simp add: CURL_MAX_WRITE_SIZE_def)
  have "unat (word_of_nat (length c) :: 64 word) = length c"
    using lc by (simp add: unat_of_nat)
  with get_response_no_wrap [OF assms(1-3)] assms(4) show ?thesis
    by (simp add: get_response_def Let_def)
qed

lemma unat_msize_add:
  assumes "unat (msize mem) + length c < 2 ^ 64"
  shows "unat (msize mem + word_of_nat (length c)) = unat (msize mem) + length c"
  using assms by (simp add: unat_word_ariths unat_of_nat)

lemma deliver_fits:
  assumes "chunks_fit cs" and "cs \<noteq> []" and "w_heap w < 2 ^ 63"
    and "unat (msize mem) + length (concat cs) + 1 \<le> w_heap w"
    and "unat (msize mem) \<le> length (memory mem)"
  shows "deliver cs mem w =
    (True, \<lparr>memory = take (unat (msize mem)) (memory mem) @ concat cs @ [NUL],
            msize = msize mem + word_of_nat (length (concat cs))\<rparr>, w)"
  using assms
proof (induction cs arbitrary: mem)
  case Nil
  then show ?case by simp
next
  case (Cons c cs)
  have fit: "length c \<le> CURL_MAX_WRITE_SIZE" and fits: "chunks_fit cs"
    using Cons.prems(1) by (simp_all add: chunks_fit_def)
  have step: "get_response c 1 (word_of_nat (length c)) mem w =
    (word_of_nat (length c),
     \<lparr>memory = take (unat (msize mem)) (memory mem) @ c @ [NUL],
      msize = msize mem + word_of_nat (length c)\<rparr>, w)"
    using Cons.prems(3-4) fit by (intro get_response_step) auto
  show ?case
  proof (cases "cs = []")
    case True
    with step show ?thesis by simp
  next
    case False
    let ?mem' = "\<lparr>memory = take (unat (msize mem)) (memory mem) @ c @ [NUL],
                  msize = msize mem + word_of_nat (length c)\<rparr>"
    have sz: "unat (msize ?mem') = unat (msize mem) + length c"
      using Cons.prems(3-4) by (simp add: unat_msize_add)
    have IH: "deliver cs ?mem' w =
      (True, \<lparr>memory = take (unat (msize ?mem')) (memory ?mem') @ concat cs @ [NUL],
              msize = msize ?mem' + word_of_nat (length (concat cs))\<rparr>, w)"
      using Cons.prems(3-5) False fits sz by (intro Cons.IH) auto
    have tk: "take (unat (msize ?mem')) (memory ?mem') = take (unat (msize mem)) (memory mem) @ c"
      using Cons.prems(5) sz by simp
    have ws: "msize mem + word_of_nat (length c) + word_of_nat (length (concat cs))
        = msize mem + (word_of_nat (length (concat (c # cs))) :: 64 word)"
      by (simp add: add.assoc)
    have "deliver (c # cs) mem w = deliver cs ?mem' w"
      using step by simp
    also have "\<dots> = (True, \<lparr>memory = take (unat (msize mem)) (memory mem) @ c @ concat cs @ [NUL],
              msize = msize mem + word_of_nat (length c) + word_of_nat (length (concat cs))\<rparr>, w)"
      using IH tk by simp
    finally show ?thesis
      by (simp only: ws concat.simps append_assoc)
  qed
qed

lemma deliver_frame:
  "\<exists>e. snd (snd (deliver cs mem w)) = w\<lparr>w_err := e\<rparr>"
proof (induction cs arbitrary: mem w)
  case Nil
  then show ?case by (auto intro: exI [of _ "w_err w"])
next
  case (Cons c cs)
  obtain r m' w' where g: "get_response c 1 (word_of_nat (length c)) mem w = (r, m', w')"
    by (metis prod_cases3)
  have "\<exists>e. w' = w\<lparr>w_err := e\<rparr>"
    using g by (auto simp: get_response_def put_err_def Let_def split: if_splits
        intro: exI [of _ "w_err w"])
  then obtain e where e: "w' = w\<lparr>w_err := e\<rparr>"
    by blast
  obtain e' where "snd (snd (deliver cs m' w')) = w'\<lparr>w_err := e'\<rparr>"
    using Cons.IH by blast
  with g e show ?case
    by (auto intro: exI [of _ e'])
qed

lemma get_response_chunk_ok:
  assumes "length (memory mem) = Suc (unat (msize mem))" and "unat (msize mem) < w_heap w"
    and "w_heap w < 2 ^ 63" and "length c \<le> CURL_MAX_WRITE_SIZE"
    and "get_response c 1 (word_of_nat (length c)) mem w = (r, mem', w')"
  shows "w_heap w' = w_heap w \<and> (chunk_ok mem' w' \<or> (r = 0 \<and> mem' = mem))"
proof (cases "w_heap w < unat (msize mem + 1 * word_of_nat (length c) + 1)")
  case True
  then show ?thesis using assms(5) by (auto simp: get_response_def put_err_def Let_def)
next
  case False
  have lc: "unat (word_of_nat (length c) :: 64 word) = length c"
    using assms(4) by (simp add: unat_of_nat CURL_MAX_WRITE_SIZE_def)
  have req: "unat (msize mem + 1 * word_of_nat (length c) + 1) = unat (msize mem) + length c + 1"
    using assms(2-4) by (intro get_response_no_wrap) simp_all
  have sz: "unat (msize mem + word_of_nat (length c)) = unat (msize mem) + length c"
    using assms(2-4) by (intro unat_msize_add) (simp add: CURL_MAX_WRITE_SIZE_def)
  have "mem' = \<lparr>memory = take (unat (msize mem)) (memory mem) @ c @ [NUL],
                msize = msize mem + word_of_nat (length c)\<rparr>" and "w' = w"
    using assms(5) False lc by (auto simp: get_response_def Let_def)
  with False req sz assms(1) show ?thesis
    by (simp add: chunk_ok_def)
qed

lemma chunk_ok_get_response:
  assumes "chunk_ok mem w" and "w_heap w < 2 ^ 63" and "length c \<le> CURL_MAX_WRITE_SIZE"
    and "get_response c 1 (word_of_nat (length c)) mem w = (r, mem', w')"
  shows "chunk_ok mem' w'"
  using get_response_chunk_ok [OF _ _ assms(2-4)] assms(1) by (auto simp: chunk_ok_def)

text \<open>
  C9: the response buffer keeps its shape across the transfer: if it holds
  \<open>size + 1\<close> bytes ending in \<open>NUL\<close> before the callbacks run, it does after
  every sequence of callback calls, whether \<open>realloc\<close> succeeds or fails.
\<close>

theorem deliver_chunk_ok:
  "w_heap w < 2 ^ 63 \<Longrightarrow> chunks_fit cs \<Longrightarrow> chunk_ok mem w \<Longrightarrow> deliver cs mem w = (ok, mem', w')
   \<Longrightarrow> chunk_ok mem' w'"
proof (induction cs arbitrary: mem w)
  case Nil
  then show ?case by simp
next
  case (Cons c cs)
  obtain r m1 w1 where g: "get_response c 1 (word_of_nat (length c)) mem w = (r, m1, w1)"
    by (metis prod_cases3)
  have fit: "length c \<le> CURL_MAX_WRITE_SIZE" and fits: "chunks_fit cs"
    using Cons.prems(2) by (simp_all add: chunks_fit_def)
  have ok1: "chunk_ok m1 w1" and h1: "w_heap w1 = w_heap w"
    using chunk_ok_get_response [OF Cons.prems(3) Cons.prems(1) fit g]
      get_response_chunk_ok [OF _ _ Cons.prems(1) fit g] Cons.prems(3) by (auto simp: chunk_ok_def)
  show ?case
  proof (cases "r = word_of_nat (length c)")
    case True
    then have "deliver cs m1 w1 = (ok, mem', w')" using Cons.prems(4) g by simp
    with Cons.IH [OF _ fits ok1] h1 Cons.prems(1) show ?thesis by simp
  next
    case False
    then show ?thesis using Cons.prems(4) g ok1 by simp
  qed
qed

text \<open>
  C19: when the file does not exist, \<open>upload_image\<close> fails with the
  diagnostic and makes no network call.
\<close>

theorem upload_image_missing_file:
  assumes "\<not> file_exists image_path w"
  shows "upload_image json_parse image_path client_id w
           = (None, put_err ''File provided does not exist'' w)
         \<and> w_sent (snd (upload_image json_parse image_path client_id w)) = w_sent w"
  using assms by (simp add: upload_image_def put_err_def)

lemma curl_perform_code:
  "rp_code (next_reply w) \<noteq> CURLE_OK \<Longrightarrow> fst (curl_perform req mem w) \<noteq> CURLE_OK"
  by (auto simp: curl_perform_def Let_def CURLE_OK_def CURLE_WRITE_ERROR_def split: prod.splits)

text \<open>
  C20: when the transfer fails, \<open>upload_image\<close> fails without parsing
  anything: its result does not depend on the JSON parser.
\<close>

theorem upload_image_transfer_failure:
  assumes "file_exists image_path w" and "rp_code (next_reply w) \<noteq> CURLE_OK"
  shows "fst (upload_image json_parse image_path client_id w) = None
         \<and> upload_image json_parse image_path client_id w = upload_image json_parse' image_path client_id w"
proof -
  let ?w1 = "if get_image_name image_path = None then w else w\<lparr>w_leaked := Suc (w_leaked w)\<rparr>"
  let ?w2 = "?w1\<lparr>w_leaked := Suc (w_leaked ?w1)\<rparr>"
  obtain res chunk' w3 where cp:
    "curl_perform (upload_request image_path client_id) \<lparr>memory = [w_malloc_byte ?w2], msize = 0\<rparr> ?w2
       = (res, chunk', w3)"
    by (metis prod_cases3)
  have "next_reply ?w2 = next_reply w"
    by (simp add: next_reply_def)
  then have "res \<noteq> CURLE_OK"
    using curl_perform_code [of ?w2] cp assms(2) by (metis fst_conv)
  then show ?thesis
    using assms(1) cp by (simp add: upload_image_def Let_def)
qed

lemma upload_image_link:
  assumes "file_exists image_path w" and "w_curl_ok w"
    and "next_reply w = \<lparr>rp_code = CURLE_OK, rp_chunks = cs\<rparr>"
    and "cs \<noteq> []" and "chunks_fit cs" and "w_heap w < 2 ^ 63"
    and "length (concat cs) + 1 \<le> w_heap w"
    and "json_parse (c_str (concat cs)) = JsonOk doc"
    and "get_object_item (get_object_item (Some doc) ''data'') ''link'' = Some (JString link)"
  shows "fst (upload_image json_parse image_path client_id w) = Some (c_str link)
         \<and> w_sent (snd (upload_image json_parse image_path client_id w))
             = w_sent w @ [upload_request image_path client_id]"
proof -
  let ?w1 = "if get_image_name image_path = None then w else w\<lparr>w_leaked := Suc (w_leaked w)\<rparr>"
  let ?w2 = "?w1\<lparr>w_leaked := Suc (w_leaked ?w1)\<rparr>"
  let ?w0 = "?w2\<lparr>w_replies := drop 1 (w_replies ?w2), w_sent := w_sent ?w2 @ [upload_request image_path client_id]\<rparr>"
  have heap: "w_heap ?w0 = w_heap w" and rep: "next_reply ?w2 = next_reply w"
    by (simp_all add: next_reply_def)
  have del: "deliver cs \<lparr>memory = [w_malloc_byte ?w2], msize = 0\<rparr> ?w0 =
      (True, \<lparr>memory = concat cs @ [NUL], msize = word_of_nat (length (concat cs))\<rparr>, ?w0)"
    using deliver_fits [of cs ?w0 "\<lparr>memory = [w_malloc_byte ?w2], msize = 0\<rparr>"] assms(4-7) heap
    by simp
  show ?thesis
    using assms(1-3,8,9) del rep
    by (simp add: upload_image_def curl_perform_def extract_link_from_response_def put_out_def
        CURLE_OK_def Let_def c_str_append_Cons_nul)
qed

text \<open>
  C8: when the file exists, the transfer succeeds and the body parses to a
  document with a string \<open>data.link\<close>, \<open>upload_image\<close> returns that
  string (up to its first \<open>NUL\<close>) after sending exactly one request.
\<close>

theorem upload_image_success:
  assumes "file_exists image_path w" and "w_curl_ok w"
    and "next_reply w = \<lparr>rp_code = CURLE_OK, rp_chunks = cs\<rparr>"
    and "cs \<noteq> []" and "chunks_fit cs" and "w_heap w < 2 ^ 63"
    and "length (concat cs) + 1 \<le> w_heap w"
    and "json_parse (c_str (concat cs)) = JsonOk doc"
    and "get_object_item (get_object_item (Some doc) ''data'') ''link'' = Some (JString link)"
  shows "fst (upload_image json_parse image_path client_id w) = Some (c_str link)
         \<and> w_sent (snd (upload_image json_parse image_path client_id w))
             = w_sent w @ [upload_request image_path client_id]"
  using assms by (rule upload_image_link)


text \<open>
  C28: the \<open>strtok_r\<close> loop of \<open>get_image_name\<close> computes the last
  segment of the path, splitting at both \<open>/\<close> and backslash.
\<close>

theorem get_image_name_last_segment: "get_image_name p = last_segment (c_str p)"
  by (simp add: get_image_name_def last_token_eq last_segment_def split: option.splits)

text \<open>
  C27: starting from the one-byte \<open>malloc(1)\<close> buffer, the write callback
  leaves the whole body followed by \<open>NUL\<close> in \<open>chunk.memory\<close> and its length
  in \<open>chunk.size\<close>, without wrap-around, when libcurl's chunks fit and the heap
  holds the body.
\<close>

theorem deliver_from_malloc:
  assumes "cs \<noteq> []" and "chunks_fit cs" and "w_heap w < 2 ^ 63"
    and "length (concat cs) + 1 \<le> w_heap w"
  shows "deliver cs \<lparr>memory = [g], msize = 0\<rparr> w =
    (True, \<lparr>memory = concat cs @ [NUL], msize = word_of_nat (length (concat cs))\<rparr>, w)
    \<and> unat (word_of_nat (length (concat cs)) :: 64 word) = length (concat cs)"
proof -
  have "length (concat cs) < 2 ^ 64"
    using assms(3,4) by simp
  then show ?thesis
    using deliver_fits [of cs w "\<lparr>memory = [g], msize = 0\<rparr>"] assms by (simp add: unat_of_nat)
qed

lemma curl_perform_frame:
  "\<exists>e. snd (snd (curl_perform req mem w)) =
     w\<lparr>w_replies := drop 1 (w_replies w), w_sent := w_sent w @ [req], w_err := e\<rparr>"
proof -
  let ?w0 = "w\<lparr>w_replies := drop 1 (w_replies w), w_sent := w_sent w @ [req]\<rparr>"
  obtain ok m' w' where d: "deliver (rp_chunks (next_reply w)) mem ?w0 = (ok, m', w')"
    by (metis prod_cases3)
  obtain e where "snd (snd (deliver (rp_chunks (next_reply w)) mem ?w0)) = ?w0\<lparr>w_err := e\<rparr>"
    using deliver_frame by blast
  with d show ?thesis
    by (auto simp: curl_perform_def Let_def)
qed

lemma upload_image_frame:
  "w_reads (snd (upload_image jp image_path client_id w)) = w_reads w
   \<and> w_clipboard (snd (upload_image jp image_path client_id w)) = w_clipboard w
   \<and> w_clock (snd (upload_image jp image_path client_id w)) = w_clock w
   \<and> w_inotify_ok (snd (upload_image jp image_path client_id w)) = w_inotify_ok w
   \<and> w_watchable (snd (upload_image jp image_path client_id w)) = w_watchable w
   \<and> w_paths (snd (upload_image jp image_path client_id w)) = w_paths w
   \<and> w_curl_ok (snd (upload_image jp image_path client_id w)) = w_curl_ok w
   \<and> w_popen_ok (snd (upload_image jp image_path client_id w)) = w_popen_ok w
   \<and> w_wlcopy_status (snd (upload_image jp image_path client_id w)) = w_wlcopy_status w
   \<and> w_pclose_fails (snd (upload_image jp image_path client_id w)) = w_pclose_fails w
   \<and> w_sent (snd (upload_image jp image_path client_id w)) =
       w_sent w @ (if file_exists image_path w \<and> w_curl_ok w then [upload_request image_path client_id] else [])"
proof (cases "file_exists image_path w \<and> w_curl_ok w")
  case True
  let ?w1 = "if get_image_name image_path = None then w else w\<lparr>w_leaked := Suc (w_leaked w)\<rparr>"
  let ?w2 = "?w1\<lparr>w_leaked := Suc (w_leaked ?w1)\<rparr>"
  let ?req = "upload_request image_path client_id"
  obtain res chunk' w3 where cp:
    "curl_perform ?req \<lparr>memory = [w_malloc_byte ?w2], msize = 0\<rparr> ?w2 = (res, chunk', w3)"
    by (metis prod_cases3)
  obtain e where w3: "w3 = ?w2\<lparr>w_replies := drop 1 (w_replies ?w2), w_sent := w_sent ?w2 @ [?req], w_err := e\<rparr>"
    using curl_perform_frame [of ?req "\<lparr>memory = [w_malloc_byte ?w2], msize = 0\<rparr>" ?w2] cp by auto
  let ?w4 = "put_out (''Response code: '' @ string_of_int res) w3"
  obtain e' where ex: "snd (extract_link_from_response jp (memory chunk' @ w_after_block ?w4) ?w4) = ?w4\<lparr>w_err := e'\<rparr>"
    using extract_link_frame by blast
  have k: "w_reads w3 = w_reads w \<and> w_clipboard w3 = w_clipboard w \<and> w_clock w3 = w_clock w
      \<and> w_inotify_ok w3 = w_inotify_ok w \<and> w_watchable w3 = w_watchable w \<and> w_paths w3 = w_paths w
      \<and> w_curl_ok w3 = w_curl_ok w \<and> w_popen_ok w3 = w_popen_ok w
      \<and> w_wlcopy_status w3 = w_wlcopy_status w \<and> w_pclose_fails w3 = w_pclose_fails w
      \<and> w_sent w3 = w_sent w @ [?req]"
    using w3 by simp
  show ?thesis
    using True cp k ex
    by (cases "res = CURLE_OK")
       (simp_all add: upload_image_def Let_def put_out_def put_err_def)
next
  case False
  then show ?thesis
    by (auto simp: upload_image_def put_err_def)
qed

lemma upload_image_keeps:
  "w_reads (snd (upload_image jp image_path client_id w)) = w_reads w
   \<and> w_clipboard (snd (upload_image jp image_path client_id w)) = w_clipboard w
   \<and> w_clock (snd (upload_image jp image_path client_id w)) = w_clock w
   \<and> length (w_sent w) \<le> length (w_sent (snd (upload_image jp image_path client_id w)))
   \<and> length (w_sent (snd (upload_image jp image_path client_id w))) \<le> Suc (length (w_sent w))"
  using upload_image_frame [of jp image_path client_id w] by auto

lemma upload_image_keepsD:
  "upload_image jp image_path client_id w = (r, w') \<Longrightarrow>
   w_reads w' = w_reads w \<and> w_clipboard w' = w_clipboard w \<and> w_clock w' = w_clock w
   \<and> length (w_sent w) \<le> length (w_sent w') \<and> length (w_sent w') \<le> Suc (length (w_sent w))"
  using upload_image_keeps [of jp image_path client_id w] by simp

lemma upload_image_sent:
  "w_sent (snd (upload_image jp image_path client_id w)) =
     w_sent w @ (if file_exists image_path w \<and> w_curl_ok w then [upload_request image_path client_id] else [])"
  using upload_image_frame [of jp image_path client_id w] by simp

text \<open>
  C29: when the transfer succeeds with an empty body, the text handed to the
  JSON parser is the uninitialised byte of \<open>malloc(1)\<close>.
\<close>

theorem upload_image_empty_body:
  assumes "file_exists image_path w" and "w_curl_ok w"
    and "next_reply w = \<lparr>rp_code = CURLE_OK, rp_chunks = []\<rparr>"
  shows "fst (upload_image json_parse image_path client_id w)
         = fst (extract_link_from_response json_parse (w_malloc_byte w # w_after_block w) w)"
  using assms
  by (cases "get_image_name image_path")
     (simp_all add: upload_image_def curl_perform_def CURLE_OK_def Let_def next_reply_def
       extract_link_fst put_out_def)


lemma deliver_first_refused:
  assumes "c \<noteq> []" and "length c < 2 ^ 63" and "w_heap w < 2 ^ 63"
    and "w_heap w < unat (msize mem) + length c + 1" and "unat (msize mem) < 2 ^ 63"
  shows "\<exists>mem' w'. deliver (c # cs) mem w = (False, mem', w')"
proof -
  have "unat (msize mem + 1 * word_of_nat (length c) + 1 :: 64 word) = unat (msize mem) + length c + 1"
    using assms(2,5) by (simp add: unat_word_ariths unat_of_nat)
  then have "w_heap w < unat (msize mem + 1 * word_of_nat (length c) + 1)"
    using assms(4) by simp
  moreover have "(0 :: 64 word) \<noteq> word_of_nat (length c)"
    using assms(1,2) by (auto simp: word_of_nat_eq_0_iff dest!: dvd_imp_le)
  ultimately show ?thesis
    by (simp add: get_response_def Let_def)
qed

text \<open>
  C21: when \<open>realloc\<close> cannot grow the buffer for the first chunk, the
  callback returns 0, libcurl aborts the transfer with \<open>CURLE_WRITE_ERROR\<close>
  (23), and \<open>upload_image\<close> fails with that code on stderr.
\<close>

theorem upload_image_out_of_memory:
  assumes "file_exists image_path w" and "w_curl_ok w"
    and "next_reply w = \<lparr>rp_code = CURLE_OK, rp_chunks = c # cs\<rparr>"
    and "c \<noteq> []" and "length c < 2 ^ 63" and "w_heap w < 2 ^ 63" and "w_heap w \<le> length c"
  shows "fst (upload_image json_parse image_path client_id w) = None
    \<and> List.last (w_err (snd (upload_image json_parse image_path client_id w))) = ''Image upload failed: 23''"
proof -
  let ?w1 = "if get_image_name image_path = None then w else w\<lparr>w_leaked := Suc (w_leaked w)\<rparr>"
  let ?w2 = "?w1\<lparr>w_leaked := Suc (w_leaked ?w1)\<rparr>"
  let ?w0 = "?w2\<lparr>w_replies := drop 1 (w_replies ?w2), w_sent := w_sent ?w2 @ [upload_request image_path client_id]\<rparr>"
  have h: "w_heap ?w0 = w_heap w"
    by simp
  obtain mem' w' where d: "deliver (c # cs) \<lparr>memory = [w_malloc_byte ?w2], msize = 0\<rparr> ?w0 = (False, mem', w')"
    using deliver_first_refused [of c ?w0 "\<lparr>memory = [w_malloc_byte ?w2], msize = 0\<rparr>" cs] assms(4-7)
    unfolding h by auto
  have rep: "next_reply ?w2 = next_reply w"
    by (simp add: next_reply_def)
  obtain res chunk' w3 where cp:
    "curl_perform (upload_request image_path client_id) \<lparr>memory = [w_malloc_byte ?w2], msize = 0\<rparr> ?w2
       = (res, chunk', w3)"
    by (metis prod_cases3)
  have "res = CURLE_WRITE_ERROR"
    using cp d rep assms(3) by (simp add: curl_perform_def Let_def del: deliver.simps)
  then show ?thesis
    using assms(1,2) cp
    by (simp add: upload_image_def Let_def CURLE_OK_def CURLE_WRITE_ERROR_def put_out_def put_err_def
        string_of_int_def)
qed

subsection \<open>Witnesses\<close>

theorem upload_image_success_witness:
  "fst (upload_image (\<lambda>s. if s = link_response ''https://i.imgur.com/abc.png''
                          then JsonOk (JObject [(''data'', JObject [(''link'', JString ''https://i.imgur.com/abc.png'')])])
                          else JsonError 0)
         ''/s/shot1.png'' ''cid''
         (quiet_world\<lparr>w_paths := {''/s/shot1.png''},
            w_replies := [\<lparr>rp_code = 0, rp_chunks = [link_response ''https://i.imgur.com/abc.png'']\<rparr>]\<rparr>))
     = Some ''https://i.imgur.com/abc.png''"
proof -
  let ?body = "link_response ''https://i.imgur.com/abc.png''"
  let ?doc = "JObject [(''data'', JObject [(''link'', JString ''https://i.imgur.com/abc.png'')])]"
  let ?jp = "\<lambda>s. if s = ?body then JsonOk ?doc else JsonError 0"
  let ?w = "quiet_world\<lparr>w_paths := {''/s/shot1.png''},
            w_replies := [\<lparr>rp_code = 0, rp_chunks = [?body]\<rparr>]\<rparr>"
  have h: "file_exists ''/s/shot1.png'' ?w" "w_curl_ok ?w"
    "next_reply ?w = \<lparr>rp_code = CURLE_OK, rp_chunks = [?body]\<rparr>"
    "[?body] \<noteq> []" "chunks_fit [?body]" "w_heap ?w < 2 ^ 63"
    "length (concat [?body]) + 1 \<le> w_heap ?w"
    "?jp (c_str (concat [?body])) = JsonOk ?doc"
    "get_object_item (get_object_item (Some ?doc) ''data'') ''link'' = Some (JString ''https://i.imgur.com/abc.png'')"
    by (simp_all add: file_exists_def quiet_world_def next_reply_def CURLE_OK_def chunks_fit_def
        CURL_MAX_WRITE_SIZE_def link_response_def json_string_def)
  show ?thesis
    using upload_image_success [where json_parse = ?jp and doc = ?doc and w = ?w, OF h] by simp
qed

theorem upload_image_missing_file_witness:
  "upload_image (\<lambda>s. JsonError 0) ''/s/gone.png'' ''cid'' quiet_world
     = (None, put_err ''File provided does not exist'' quiet_world)
   \<and> w_sent (snd (upload_image (\<lambda>s. JsonError 0) ''/s/gone.png'' ''cid'' quiet_world))
       = w_sent quiet_world"
proof -
  have h: "\<not> file_exists ''/s/gone.png'' quiet_world"
    by (simp add: file_exists_def quiet_world_def)
  show ?thesis
    by (rule upload_image_missing_file [OF h])
qed

theorem upload_image_transfer_failure_witness:
  "fst (upload_image (\<lambda>s. JsonOk JNull) ''/s/shot1.png'' ''cid''
          (quiet_world\<lparr>w_paths := {''/s/shot1.png''}, w_replies := [\<lparr>rp_code = 7, rp_chunks = []\<rparr>]\<rparr>)) = None
   \<and> upload_image (\<lambda>s. JsonOk JNull) ''/s/shot1.png'' ''cid''
          (quiet_world\<lparr>w_paths := {''/s/shot1.png''}, w_replies := [\<lparr>rp_code = 7, rp_chunks = []\<rparr>]\<rparr>)
       = upload_image (\<lambda>s. JsonError 0) ''/s/shot1.png'' ''cid''
          (quiet_world\<lparr>w_paths := {''/s/shot1.png''}, w_replies := [\<lparr>rp_code = 7, rp_chunks = []\<rparr>]\<rparr>)"
proof -
  let ?w = "quiet_world\<lparr>w_paths := {''/s/shot1.png''}, w_replies := [\<lparr>rp_code = 7, rp_chunks = []\<rparr>]\<rparr>"
  have h: "file_exists ''/s/shot1.png'' ?w" "rp_code (next_reply ?w) \<noteq> CURLE_OK"
    by (simp_all add: file_exists_def next_reply_def CURLE_OK_def)
  show ?thesis
    by (rule upload_image_transfer_failure [OF h])
qed

theorem deliver_from_malloc_witness:
  "deliver [''{'', ''}''] \<lparr>memory = [CHR ''?''], msize = 0\<rparr> quiet_world =
     (True, \<lparr>memory = ''{}'' @ [NUL], msize = 2\<rparr>, quiet_world)
   \<and> unat (word_of_nat (length (concat [''{'', ''}''])) :: 64 word) = 2"
proof -
  have h: "[''{'', ''}''] \<noteq> []" "chunks_fit [''{'', ''}'']" "w_heap quiet_world < 2 ^ 63"
    "length (concat [''{'', ''}'']) + 1 \<le> w_heap quiet_world"
    by (simp_all add: chunks_fit_def CURL_MAX_WRITE_SIZE_def quiet_world_def)
  show ?thesis
    using deliver_from_malloc [OF h, of "CHR ''?''"] by simp
qed

theorem upload_image_empty_body_witness:
  "fst (upload_image (\<lambda>s. JsonOk (JObject [(''data'', JObject [(''link'', JString s)])])) ''/s/shot1.png'' ''cid''
          (quiet_world\<lparr>w_paths := {''/s/shot1.png''}, w_malloc_byte := CHR ''{'', w_after_block := ''junk'' @ [NUL],
             w_replies := [\<lparr>rp_code = 0, rp_chunks = []\<rparr>]\<rparr>))
   = Some ''{junk''"
proof -
  let ?w = "quiet_world\<lparr>w_paths := {''/s/shot1.png''}, w_malloc_byte := CHR ''{'', w_after_block := ''junk'' @ [NUL],
             w_replies := [\<lparr>rp_code = 0, rp_chunks = []\<rparr>]\<rparr>"
  have h: "file_exists ''/s/shot1.png'' ?w" "w_curl_ok ?w"
    "next_reply ?w = \<lparr>rp_code = CURLE_OK, rp_chunks = []\<rparr>"
    by (simp_all add: file_exists_def quiet_world_def next_reply_def CURLE_OK_def)
  show ?thesis
    using upload_image_empty_body [where json_parse = "\<lambda>s. JsonOk (JObject [(''data'', JObject [(''link'', JString s)])])"
        and client_id = "''cid''", OF h]
    by (simp add: extract_link_fst)
qed

theorem upload_image_out_of_memory_witness:
  "fst (upload_image (\<lambda>s. JsonError 0) ''/s/a.png'' ''cid''
      (quiet_world\<lparr>w_paths := {''/s/a.png''}, w_heap := 4,
         w_replies := [\<lparr>rp_code = 0, rp_chunks = [''abcdef'']\<rparr>]\<rparr>)) = None
   \<and> List.last (w_err (snd (upload_image (\<lambda>s. JsonError 0) ''/s/a.png'' ''cid''
      (quiet_world\<lparr>w_paths := {''/s/a.png''}, w_heap := 4,
         w_replies := [\<lparr>rp_code = 0, rp_chunks = [''abcdef'']\<rparr>]\<rparr>)))) = ''Image upload failed: 23''"
proof -
  let ?w = "quiet_world\<lparr>w_paths := {''/s/a.png''}, w_heap := 4,
         w_replies := [\<lparr>rp_code = 0, rp_chunks = [''abcdef'']\<rparr>]\<rparr>"
  have h: "file_exists ''/s/a.png'' ?w" "w_curl_ok ?w"
    "next_reply ?w = \<lparr>rp_code = CURLE_OK, rp_chunks = ''abcdef'' # []\<rparr>"
    "''abcdef'' \<noteq> []" "length ''abcdef'' < 2 ^ 63" "w_heap ?w < 2 ^ 63" "w_heap ?w \<le> length ''abcdef''"
    by (simp_all add: file_exists_def quiet_world_def next_reply_def CURLE_OK_def)
  show ?thesis
    by (rule upload_image_out_of_memory [where json_parse = "\<lambda>s. JsonError 0", OF h])
qed

theorem deliver_chunk_ok_witness:
  "w_heap quiet_world < 2 ^ 63 \<and> chunks_fit [''xyz'']
   \<and> chunk_ok \<lparr>memory = ''ab'' @ [NUL], msize = 2\<rparr> quiet_world
   \<and> deliver [''xyz''] \<lparr>memory = ''ab'' @ [NUL], msize = 2\<rparr> quiet_world
       = (True, \<lparr>memory = ''abxyz'' @ [NUL], msize = 5\<rparr>, quiet_world)
   \<and> chunk_ok \<lparr>memory = ''abxyz'' @ [NUL], msize = 5\<rparr> quiet_world"
  using deliver_chunk_ok [of quiet_world "[''xyz'']" "\<lparr>memory = ''ab'' @ [NUL], msize = 2\<rparr>" True
      "\<lparr>memory = ''abxyz'' @ [NUL], msize = 5\<rparr>" quiet_world]
  by (simp add: quiet_world_def chunks_fit_def CURL_MAX_WRITE_SIZE_def chunk_ok_def get_response_def)
end
