(* ===== verification/Clipboard.thy ===== *)
theory Clipboard
  imports Os
begin

text \<open>
  The clipboard writer, \<open>copy_string_to_clipboard\<close> in \<open>src/main.c\<close>
  (lines 47--59). It runs \<open>wl-copy\<close> through \<open>popen(.., "w")\<close>, writes the
  string to its standard input and waits for it with \<open>pclose\<close>. The world says
  whether \<open>popen\<close> can start the shell (\<open>w_popen_ok\<close>), the exit status of
  \<open>wl-copy\<close> (\<open>w_wlcopy_status\<close>: 0 when it set the clipboard, 127 when the
  shell cannot find it) and whether the wait itself fails (\<open>w_pclose_fails\<close>,
  the only case in which \<open>pclose\<close> returns -1).
\<close>

definition copy_string_to_clipboard :: "cbuf \<Rightarrow> world \<Rightarrow> cbuf option \<times> world" where
  "copy_string_to_clipboard string w =
     (if \<not> w_popen_ok w then (None, put_err ''popen'' w)
      else
        (let w' = (if w_wlcopy_status w = 0 then w\<lparr>w_clipboard := c_str string\<rparr> else w)
         in if w_pclose_fails w then (None, put_err ''pclose'' w') else (Some string, w')))"

subsection \<open>Properties of the clipboard writer\<close>

lemma copy_string_keeps:
  "w_reads (snd (copy_string_to_clipboard s w)) = w_reads w
   \<and> w_clock (snd (copy_string_to_clipboard s w)) = w_clock w
   \<and> w_sent (snd (copy_string_to_clipboard s w)) = w_sent w"
  by (simp add: copy_string_to_clipboard_def Let_def put_err_def)

lemma copy_string_keepsD:
  "copy_string_to_clipboard s w = (r, w') \<Longrightarrow>
   w_reads w' = w_reads w \<and> w_clock w' = w_clock w \<and> w_sent w' = w_sent w"
  using copy_string_keeps [of s w] by simp

text \<open>
  C30: \<open>copy_string_to_clipboard\<close> reports failure exactly when the shell cannot
  be started or the wait fails, and the clipboard holds the string afterwards
  exactly when the shell started and \<open>wl-copy\<close> exited with status 0.
\<close>

theorem copy_string_outcome:
  "(fst (copy_string_to_clipboard s w) = None \<longleftrightarrow> \<not> w_popen_ok w \<or> w_pclose_fails w)
   \<and> w_clipboard (snd (copy_string_to_clipboard s w)) =
       (if w_popen_ok w \<and> w_wlcopy_status w = 0 then c_str s else w_clipboard w)"
  by (simp add: copy_string_to_clipboard_def Let_def put_err_def)

text \<open>
  C16: when \<open>wl-copy\<close> fails (for instance it is not installed, status 127),
  \<open>copy_string_to_clipboard\<close> still reports success and the clipboard is
  unchanged: \<open>pclose\<close> is only checked for -1, not for the exit status.
\<close>

theorem copy_string_ignores_status:
  assumes "w_popen_ok w" and "\<not> w_pclose_fails w" and "w_wlcopy_status w \<noteq> 0"
  shows "copy_string_to_clipboard s w = (Some s, w)"
  using assms by (simp add: copy_string_to_clipboard_def)

subsection \<open>Witnesses\<close>

theorem copy_string_ignores_status_witness:
  "copy_string_to_clipboard ''https://i.imgur.com/abc.png'' (quiet_world\<lparr>w_wlcopy_status := 127\<rparr>)
   = (Some ''https://i.imgur.com/abc.png'', quiet_world\<lparr>w_wlcopy_status := 127\<rparr>)"
proof -
  have h: "w_popen_ok (quiet_world\<lparr>w_wlcopy_status := 127\<rparr>)"
    "\<not> w_pclose_fails (quiet_world\<lparr>w_wlcopy_status := 127\<rparr>)"
    "w_wlcopy_status (quiet_world\<lparr>w_wlcopy_status := 127\<rparr>) \<noteq> 0"
    by (simp_all add: quiet_world_def)
  show ?thesis
    by (rule copy_string_ignores_status [OF h])
qed

theorem copy_string_outcome_witness:
  "(fst (copy_string_to_clipboard ''link'' (quiet_world\<lparr>w_pclose_fails := True\<rparr>)) = None)
   \<and> w_clipboard (snd (copy_string_to_clipboard ''link'' (quiet_world\<lparr>w_pclose_fails := True\<rparr>))) = ''link''"
  using copy_string_outcome [of "''link''" "quiet_world\<lparr>w_pclose_fails := True\<rparr>"]
  by (simp add: quiet_world_def)

end
