(* ===== verification/MainLoop.thy ===== *)
theory MainLoop
  imports Watcher Uploader Clipboard
begin

text \<open>
  The program's \<open>main\<close> (\<open>src/main.c\<close>, lines 215--271): the choice of
  directory and client ID from the arguments, then the endless cycle watch,
  pause one second, upload, copy to the clipboard. \<open>main_cycle\<close> is one pass
  of the \<open>while (1)\<close> body (lines 252--268), \<open>main_loop\<close> the loop. The
  loop ends only when the watcher ends the process; otherwise it runs while the
  kernel has events to report, and then waits in \<open>read\<close>: since every pass
  that returns consumes at least one read, \<open>main_loop\<close> is a total function
  with the number of pending reads as its measure. \<open>loop_step\<close> is the same
  loop as the state machine of the specification (Watching, Debouncing,
  Uploading, Publishing). \<open>shots\<close> lists the screenshots a sequence of reads
  announces; the lemmas show the loop refines the machine, keeps its budget of
  one request per pause and per read, uploads every announced screenshot and
  uploads them in order. The run properties are applied to a run that
  uploads a screenshot and publishes its link (\<open>shot_world\<close> with the
  parser \<open>link_echo\<close>; \<open>shot_cycle\<close>, \<open>shot_run\<close>).
\<close>

definition EXIT_FAILURE :: int where
  "EXIT_FAILURE = 1"

text \<open>
  \<open>stat(argv[1], &path_stat); S_ISDIR(path_stat.st_mode)\<close> (lines 221--223).
  The result of \<open>stat\<close> is not checked: when it fails, \<open>st_mode\<close> is read
  from the uninitialised \<open>struct stat\<close>, whose verdict is \<open>w_stat_garbage_dir\<close>.
\<close>

definition stat_is_dir :: "cbuf \<Rightarrow> world \<Rightarrow> bool" where
  "stat_is_dir path w =
     (if c_str path \<in> w_paths w then c_str path \<in> w_dirs w else w_stat_garbage_dir w)"

text \<open>
  The argument handling (lines 220--243): the directory to watch and the client
  ID, or a diagnostic and \<open>EXIT_FAILURE\<close>. With one argument the directory is
  \<open>$HOME/Pictures/Screenshots\<close>, formatted into a \<open>PATH_MAX\<close> buffer.
\<close>

definition main_args :: "cbuf list \<Rightarrow> world \<Rightarrow> (string \<times> string) option \<times> world" where
  "main_args argv w =
     (if length argv = 2 then
        (if stat_is_dir (argv ! 1) w
         then (None, put_err ''Error: Only one argument provided and it is a directory. Please provide a Client ID.'' w)
         else
           (case w_home w of
              Some h \<Rightarrow> (Some (snprintf_str PATH_MAX (c_str h @ ''/Pictures/Screenshots''), c_str (argv ! 1)), w)
            | None \<Rightarrow> (None, put_err ''HOME environment variable is not set.'' w)))
      else if 2 < length argv then (Some (c_str (argv ! 1), c_str (argv ! 2)), w)
      else
        (None, put_err (''Usage: '' @ (case argv of [] \<Rightarrow> ''(null)'' | a # _ \<Rightarrow> c_str a)
                        @ '' <directory_to_watch> <client_id>'') w))"

datatype cycle_result = CycleDone | CycleExit | CycleBlocked

text \<open>
  One pass of the loop body (lines 253--267): watch; print the path; \<open>sleep(1)\<close>
  (the clock advances by one second); upload; on a link, print it and copy it,
  reporting a clipboard failure; on no link, report the upload failure.
  \<open>free(link)\<close> releases the link and leaves no trace in the model.
\<close>

definition main_cycle :: "json_parser \<Rightarrow> cbuf \<Rightarrow> cbuf \<Rightarrow> world \<Rightarrow> cycle_result \<times> world" where
  "main_cycle json_parse dir client w =
     (case watch_directory dir w of
        (WatchFatal, w1) \<Rightarrow> (CycleExit, w1)
      | (WatchBlocked, w1) \<Rightarrow> (CycleBlocked, w1)
      | (WatchFound p, w1) \<Rightarrow>
          (let w2 = put_out (''New file created: '' @ p) w1;
               w3 = w2\<lparr>w_clock := w_clock w2 + 1\<rparr>
           in case upload_image json_parse p client w3 of
                (Some l, w4) \<Rightarrow>
                  (case copy_string_to_clipboard l (put_out (''Uploaded: '' @ l) w4) of
                     (r, w5) \<Rightarrow>
                       (CycleDone,
                        if r = None then put_err ''Failed to copy the link to clipboard'' w5 else w5))
              | (None, w4) \<Rightarrow> (CycleDone, put_err ''Failed to upload to imgur'' w4)))"

datatype run_outcome = Waiting | Exited int

function main_loop :: "json_parser \<Rightarrow> cbuf \<Rightarrow> cbuf \<Rightarrow> world \<Rightarrow> run_outcome \<times> world" where
  "main_loop json_parse dir client w =
     (case main_cycle json_parse dir client w of
        (CycleDone, w') \<Rightarrow> main_loop json_parse dir client w'
      | (CycleExit, w') \<Rightarrow> (Exited EXIT_FAILURE, w')
      | (CycleBlocked, w') \<Rightarrow> (Waiting, w'))"
  by pat_completeness auto
termination
proof (relation "measure (\<lambda>(jp, dir, client, w). length (w_reads w))")
  fix json_parse dir client w x w'
  assume "(x, w') = main_cycle json_parse dir client w" and "x = CycleDone"
  then have mc: "main_cycle json_parse dir client w = (CycleDone, w')"
    by simp
  then obtain p w1 where wd: "watch_directory dir w = (WatchFound p, w1)"
    by (auto simp: main_cycle_def split: prod.splits watch_result.splits)
  have "w_reads w' = w_reads w1"
    using mc wd
    by (auto simp: main_cycle_def Let_def put_out_def put_err_def split: prod.splits option.splits
        dest!: upload_image_keepsD copy_string_keepsD)
  with watch_directory_consumes [OF wd]
  show "((json_parse, dir, client, w'), json_parse, dir, client, w)
          \<in> measure (\<lambda>(jp, dir, client, w). length (w_reads w))"
    by simp
qed auto

text \<open>
  \<open>main\<close>: arguments, the two banner lines (lines 245--246), then the loop.
  \<open>curl_global_init\<close> (line 248) has no effect the model observes.
\<close>

definition main :: "json_parser \<Rightarrow> cbuf list \<Rightarrow> world \<Rightarrow> run_outcome \<times> world" where
  "main json_parse argv w =
     (case main_args argv w of
        (None, w') \<Rightarrow> (Exited EXIT_FAILURE, w')
      | (Some (dir, client), w') \<Rightarrow>
          main_loop json_parse dir client
            (put_out (''Using Client ID: '' @ client)
              (put_out (''Screenshot directory set as: '' @ dir) w')))"

subsection \<open>The loop as a state machine\<close>

datatype phase = Watching | Debouncing string | Uploading string | Publishing string | Terminated

inductive loop_step :: "json_parser \<Rightarrow> cbuf \<Rightarrow> cbuf \<Rightarrow> phase \<times> world \<Rightarrow> phase \<times> world \<Rightarrow> bool"
  for json_parse :: json_parser and dir :: cbuf and client :: cbuf where
  watched: "watch_directory dir w = (WatchFound p, w') \<Longrightarrow>
    loop_step json_parse dir client (Watching, w) (Debouncing p, put_out (''New file created: '' @ p) w')"
| fatal: "watch_directory dir w = (WatchFatal, w') \<Longrightarrow>
    loop_step json_parse dir client (Watching, w) (Terminated, w')"
| waiting: "watch_directory dir w = (WatchBlocked, w') \<Longrightarrow>
    loop_step json_parse dir client (Watching, w) (Watching, w')"
| debounced: "loop_step json_parse dir client (Debouncing p, w) (Uploading p, w\<lparr>w_clock := w_clock w + 1\<rparr>)"
| uploaded: "upload_image json_parse p client w = (Some l, w') \<Longrightarrow>
    loop_step json_parse dir client (Uploading p, w) (Publishing l, put_out (''Uploaded: '' @ l) w')"
| upload_failed: "upload_image json_parse p client w = (None, w') \<Longrightarrow>
    loop_step json_parse dir client (Uploading p, w) (Watching, put_err ''Failed to upload to imgur'' w')"
| published: "copy_string_to_clipboard l w = (r, w') \<Longrightarrow>
    loop_step json_parse dir client (Publishing l, w)
      (Watching, if r = None then put_err ''Failed to copy the link to clipboard'' w' else w')"

text \<open>
  A request may be sent only from \<open>Uploading\<close>, which is entered by the
  one-second pause; a configuration in \<open>Uploading\<close> holds one pause not yet
  spent on a request.
\<close>

definition pause_credit :: "phase \<Rightarrow> nat" where
  "pause_credit ph = (case ph of Uploading p \<Rightarrow> 1 | _ \<Rightarrow> 0)"

text \<open>
  The screenshots a sequence of reads announces, in order: the first
  qualifying event of each batch, up to the first failed read. This is what the
  watcher hands to the loop, one per pass.
\<close>

fun shots :: "cbuf \<Rightarrow> read_result list \<Rightarrow> string list" where
  "shots dir [] = []"
| "shots dir (ReadError # rs) = []"
| "shots dir (ReadEvents evs # rs) =
     (case scan_events dir evs of Some p \<Rightarrow> p # shots dir rs | None \<Rightarrow> shots dir rs)"

text \<open>
  Inputs for the example runs below: a parser whose document has the whole
  text as its \<open>data.link\<close>, and a world in which one screenshot is created
  in \<open>/s\<close> and the server answers its upload with the body \<open>ab\<close>.
\<close>

abbreviation link_echo :: json_parser where
  "link_echo \<equiv> \<lambda>s. JsonOk (JObject [(''data'', JObject [(''link'', JString s)])])"

abbreviation shot_world :: world where
  "shot_world \<equiv> quiet_world\<lparr>w_watchable := {''/s''}, w_paths := {''/s/shot.png''},
     w_reads := [ReadEvents [create_event IN_CREATE ''shot.png'']],
     w_replies := [\<lparr>rp_code = 0, rp_chunks = [''ab'']\<rparr>]\<rparr>"

subsection \<open>The loop implements the state machine\<close>

lemma main_cycle_done_run:
  assumes "main_cycle jp dir client w = (CycleDone, w')"
  shows "(loop_step jp dir client)\<^sup>*\<^sup>* (Watching, w) (Watching, w')"
proof -
  obtain p w1 where wd: "watch_directory dir w = (WatchFound p, w1)"
    using assms by (auto simp: main_cycle_def split: prod.splits watch_result.splits)
  define w3 where "w3 = (put_out (''New file created: '' @ p) w1)\<lparr>w_clock := w_clock (put_out (''New file created: '' @ p) w1) + 1\<rparr>"
  have s1: "(loop_step jp dir client)\<^sup>*\<^sup>* (Watching, w) (Uploading p, w3)"
    using loop_step.watched [OF wd, of jp client] loop_step.debounced [of jp dir client p]
    unfolding w3_def by (meson converse_rtranclp_into_rtranclp r_into_rtranclp)
  obtain r w4 where up: "upload_image jp p client w3 = (r, w4)"
    by fastforce
  show ?thesis
  proof (cases r)
    case None
    then have "w' = put_err ''Failed to upload to imgur'' w4"
      using assms wd up by (simp add: main_cycle_def Let_def w3_def)
    then show ?thesis
      using s1 loop_step.upload_failed [of jp p client w3 w4 dir] up None
      by (simp add: rtranclp.rtrancl_into_rtrancl)
  next
    case (Some l)
    obtain c w5 where cp: "copy_string_to_clipboard l (put_out (''Uploaded: '' @ l) w4) = (c, w5)"
      by fastforce
    then have "w' = (if c = None then put_err ''Failed to copy the link to clipboard'' w5 else w5)"
      using assms wd up Some by (simp add: main_cycle_def Let_def w3_def)
    moreover have "loop_step jp dir client (Uploading p, w3) (Publishing l, put_out (''Uploaded: '' @ l) w4)"
      using up Some by (intro loop_step.uploaded) simp
    ultimately show ?thesis
      using s1 loop_step.published [OF cp, of jp dir client]
      by (meson rtranclp.rtrancl_into_rtrancl)
  qed
qed

lemma main_cycle_exit_run:
  assumes "main_cycle jp dir client w = (CycleExit, w')"
  shows "loop_step jp dir client (Watching, w) (Terminated, w')"
proof -
  have "watch_directory dir w = (WatchFatal, w')"
    using assms by (auto simp: main_cycle_def Let_def split: prod.splits watch_result.splits option.splits)
  then show ?thesis by (rule loop_step.fatal)
qed

lemma main_loop_done:
  "main_cycle jp dir client w = (CycleDone, w') \<Longrightarrow> main_loop jp dir client w = main_loop jp dir client w'"
  by (simp add: main_loop.simps [of jp dir client w])

lemma main_loop_blocked:
  "main_cycle jp dir client w = (CycleBlocked, w') \<Longrightarrow> main_loop jp dir client w = (Waiting, w')"
  by (simp add: main_loop.simps [of jp dir client w])

lemma main_cycle_found_frame:
  assumes "main_cycle jp dir client w = (c, w')" and "watch_directory dir w = (WatchFound p, w1)"
  shows "w_reads w' = w_reads w1 \<and> length (w_sent w') \<le> Suc (length (w_sent w1))"
  using assms
  by (auto simp: main_cycle_def Let_def put_out_def put_err_def split: prod.splits option.splits
      dest!: upload_image_keepsD copy_string_keepsD)

lemma main_cycle_budget:
  "length (w_sent (snd (main_cycle jp dir client w))) + length (w_reads (snd (main_cycle jp dir client w)))
   \<le> length (w_sent w) + length (w_reads w)"
proof -
  obtain r w1 where wd: "watch_directory dir w = (r, w1)" by fastforce
  obtain c w' where mc: "main_cycle jp dir client w = (c, w')" by fastforce
  have s1: "w_sent w1 = w_sent w" and r1: "length (w_reads w1) \<le> length (w_reads w)"
    using watch_directory_keeps [of dir w] watch_directory_reads_le [of dir w] wd by simp_all
  show ?thesis
  proof (cases r)
    case (WatchFound p)
    then have "length (w_reads w1) < length (w_reads w)"
      using watch_directory_consumes wd by blast
    with main_cycle_found_frame [OF mc wd [unfolded WatchFound]] s1 mc show ?thesis
      by simp
  qed (use wd mc s1 r1 in \<open>auto simp: main_cycle_def\<close>)
qed

lemma watch_scan_shots:
  "watch_scan dir rs = (r, rest) \<Longrightarrow>
   set rest \<subseteq> set rs \<and> shots dir rs = (case r of WatchFound p \<Rightarrow> p # shots dir rest | _ \<Rightarrow> [])"
  by (induction dir rs arbitrary: r rule: watch_scan.induct) (auto split: option.splits)

lemma main_cycle_found:
  assumes "watch_directory dir w = (WatchFound p, w1)"
  shows "fst (main_cycle jp dir client w) = CycleDone
    \<and> w_reads (snd (main_cycle jp dir client w)) = w_reads w1
    \<and> w_sent (snd (main_cycle jp dir client w)) =
        w_sent w1 @ (if file_exists p w1 \<and> w_curl_ok w1 then [upload_request p client] else [])
    \<and> w_inotify_ok (snd (main_cycle jp dir client w)) = w_inotify_ok w1
    \<and> w_watchable (snd (main_cycle jp dir client w)) = w_watchable w1
    \<and> w_paths (snd (main_cycle jp dir client w)) = w_paths w1
    \<and> w_curl_ok (snd (main_cycle jp dir client w)) = w_curl_ok w1"
proof -
  let ?w3 = "(put_out (''New file created: '' @ p) w1)\<lparr>w_clock := w_clock (put_out (''New file created: '' @ p) w1) + 1\<rparr>"
  obtain l w4 where up: "upload_image jp p client ?w3 = (l, w4)" by fastforce
  have f: "w_reads w4 = w_reads w1 \<and> w_inotify_ok w4 = w_inotify_ok w1 \<and> w_watchable w4 = w_watchable w1
      \<and> w_paths w4 = w_paths w1 \<and> w_curl_ok w4 = w_curl_ok w1
      \<and> w_sent w4 = w_sent w1 @ (if file_exists p w1 \<and> w_curl_ok w1 then [upload_request p client] else [])"
    using upload_image_frame [of jp p client ?w3] up by (simp add: put_out_def file_exists_def)
  show ?thesis
  proof (cases l)
    case None
    then show ?thesis
      using assms up f by (simp add: main_cycle_def Let_def put_err_def)
  next
    case (Some k)
    obtain r w5 where cp: "copy_string_to_clipboard k (put_out (''Uploaded: '' @ k) w4) = (r, w5)"
      by fastforce
    have "w_reads w5 = w_reads w4 \<and> w_inotify_ok w5 = w_inotify_ok w4 \<and> w_watchable w5 = w_watchable w4
      \<and> w_paths w5 = w_paths w4 \<and> w_curl_ok w5 = w_curl_ok w4 \<and> w_sent w5 = w_sent w4"
      using cp by (auto simp: copy_string_to_clipboard_def Let_def put_err_def put_out_def split: if_splits)
    then show ?thesis
      using assms up f Some cp by (simp add: main_cycle_def Let_def put_err_def)
  qed
qed

subsection \<open>Invariants of the state machine\<close>

lemma loop_step_clipboard:
  "loop_step jp dir client (ph, w) (ph', w') \<Longrightarrow> w_clipboard w' \<noteq> w_clipboard w \<Longrightarrow>
   \<exists>l. ph = Publishing l \<and> w_clipboard w' = c_str l"
proof (induction "(ph, w)" "(ph', w')" rule: loop_step.induct)
  case (watched p w1)
  then show ?case using watch_directory_keeps [of dir w] by (auto simp: put_out_def)
next
  case fatal
  then show ?case using watch_directory_keeps [of dir w] by auto
next
  case waiting
  then show ?case using watch_directory_keeps [of dir w] by auto
next
  case (uploaded p l)
  then show ?case by (auto simp: put_out_def dest: upload_image_keepsD)
next
  case (upload_failed p)
  then show ?case by (auto simp: put_err_def dest: upload_image_keepsD)
next
  case (published l r)
  then show ?case
    by (auto simp: copy_string_to_clipboard_def Let_def put_err_def split: if_splits)
qed auto

lemma loop_step_sent_clock:
  "loop_step jp dir client (ph, w) (ph', w') \<Longrightarrow>
   w_clock w \<le> w_clock w' \<and> length (w_sent w) \<le> length (w_sent w')
   \<and> length (w_sent w') + pause_credit ph' \<le> length (w_sent w) + pause_credit ph + (w_clock w' - w_clock w)"
proof (induction "(ph, w)" "(ph', w')" rule: loop_step.induct)
  case (uploaded p l)
  then show ?case by (auto simp: put_out_def pause_credit_def dest: upload_image_keepsD)
next
  case (upload_failed p)
  then show ?case by (auto simp: put_err_def pause_credit_def dest: upload_image_keepsD)
next
  case (published l r)
  then show ?case by (auto simp: put_err_def pause_credit_def dest: copy_string_keepsD)
qed (use watch_directory_keeps [of dir w] in \<open>auto simp: put_out_def pause_credit_def\<close>)

lemma reach_publishing:
  "(loop_step jp dir client)\<^sup>*\<^sup>* (Watching, w0) (ph, w) \<Longrightarrow> ph = Publishing l \<Longrightarrow>
   \<exists>p w1. (loop_step jp dir client)\<^sup>*\<^sup>* (Watching, w0) (Uploading p, w1)
     \<and> upload_image jp p client w1 = (Some l, snd (upload_image jp p client w1))
     \<and> w = put_out (''Uploaded: '' @ l) (snd (upload_image jp p client w1))"
proof (induction arbitrary: l rule: rtranclp_induct2)
  case (step ph1 w1 ph w)
  from step(2) step(1) step(4) show ?case
    by (cases rule: loop_step.cases) force+
qed simp

lemma main_cycle_sent:
  "\<exists>xs. w_sent (snd (main_cycle jp dir client w)) = w_sent w @ xs"
proof -
  obtain r w1 where wd: "watch_directory dir w = (r, w1)" by fastforce
  have s1: "w_sent w1 = w_sent w" using watch_directory_keeps [of dir w] wd by simp
  show ?thesis
  proof (cases r)
    case (WatchFound p)
    let ?w3 = "(put_out (''New file created: '' @ p) w1)\<lparr>w_clock := w_clock (put_out (''New file created: '' @ p) w1) + 1\<rparr>"
    obtain l w4 where up: "upload_image jp p client ?w3 = (l, w4)" by fastforce
    have "w_sent w4 = w_sent w @ (if file_exists p ?w3 \<and> w_curl_ok ?w3 then [upload_request p client] else [])"
      using upload_image_sent [of jp p client ?w3] up s1 by (simp add: put_out_def)
    then show ?thesis
      using wd WatchFound up
      by (auto simp: main_cycle_def Let_def put_out_def put_err_def split: option.splits prod.splits
          dest!: copy_string_keepsD)
  qed (use wd s1 in \<open>auto simp: main_cycle_def\<close>)
qed

lemma main_loop_sent:
  "\<exists>xs. w_sent (snd (main_loop jp dir client w)) = w_sent w @ xs"
proof (induction jp dir client w rule: main_loop.induct)
  case (1 jp dir client w)
  obtain c w1 where mc: "main_cycle jp dir client w = (c, w1)" by fastforce
  obtain ys where ys: "w_sent w1 = w_sent w @ ys" using main_cycle_sent [of jp dir client w] mc by auto
  show ?case
  proof (cases c)
    case CycleDone
    with "1.IH" [OF mc [symmetric] CycleDone] ys mc show ?thesis
      by (auto simp: main_loop_done)
  qed (use mc ys in \<open>simp_all add: main_loop.simps [of jp dir client w]\<close>)
qed

subsection \<open>Properties of the main loop\<close>

text \<open>
  C1: every run of \<open>main_loop\<close> is a run of the state machine: a run
  that comes to wait in \<open>read\<close> leads from \<open>Watching\<close> back to
  \<open>Watching\<close>, a run that ends the process leads to \<open>Terminated\<close>, with
  the same final world.
\<close>

theorem main_loop_refines_steps:
  "main_loop jp dir client w = (r, w') \<Longrightarrow>
   (loop_step jp dir client)\<^sup>*\<^sup>* (Watching, w) (if r = Waiting then Watching else Terminated, w')"
proof (induction jp dir client w rule: main_loop.induct)
  case (1 jp dir client w)
  obtain c w1 where mc: "main_cycle jp dir client w = (c, w1)"
    by fastforce
  show ?case
  proof (cases c)
    case CycleDone
    with mc "1.prems" have "main_loop jp dir client w1 = (r, w')"
      by (simp add: main_loop_done)
    with "1.IH" [OF mc [symmetric] CycleDone] main_cycle_done_run [of jp dir client w w1] mc CycleDone
    show ?thesis by (meson rtranclp_trans)
  next
    case CycleExit
    with mc "1.prems" show ?thesis
      by (auto simp: main_loop.simps [of jp dir client w] intro!: r_into_rtranclp main_cycle_exit_run)
  next
    case CycleBlocked
    then have "watch_directory dir w = (WatchBlocked, w1)"
      using mc by (auto simp: main_cycle_def Let_def split: prod.splits watch_result.splits option.splits)
    with mc "1.prems" CycleBlocked show ?thesis
      by (auto simp: main_loop_blocked intro!: r_into_rtranclp loop_step.waiting)
  qed
qed

text \<open>
  C17: the pause comes before every upload: in every configuration reachable
  from \<open>Watching\<close>, the requests sent so far are at most the seconds slept
  (one fewer while a pause is not yet used by its upload), and the clock never
  goes back.
\<close>

theorem requests_follow_pauses:
  "(loop_step jp dir client)\<^sup>*\<^sup>* (Watching, w0) (ph, w) \<Longrightarrow>
   length (w_sent w) + pause_credit ph \<le> length (w_sent w0) + (w_clock w - w_clock w0)
   \<and> w_clock w0 \<le> w_clock w"
proof (induction rule: rtranclp_induct2)
  case refl
  then show ?case by (simp add: pause_credit_def)
next
  case (step ph1 w1 ph w)
  from loop_step_sent_clock [OF step(2)] step(3) show ?case by linarith
qed

text \<open>
  C2: the clipboard is written only with a link an upload returned: in every
  configuration reachable from \<open>Watching\<close>, the clipboard holds what it held
  at the start or the link of an upload made on the way. In particular a failed
  upload (transport failure, or a body without \<open>data.link\<close>) never reaches
  the clipboard writer.
\<close>

theorem clipboard_only_uploaded_links:
  "(loop_step jp dir client)\<^sup>*\<^sup>* (Watching, w0) (ph, w) \<Longrightarrow>
   w_clipboard w = w_clipboard w0
   \<or> (\<exists>p w1 l w2. (loop_step jp dir client)\<^sup>*\<^sup>* (Watching, w0) (Uploading p, w1)
        \<and> upload_image jp p client w1 = (Some l, w2) \<and> w_clipboard w = c_str l)"
proof (induction rule: rtranclp_induct2)
  case (step ph1 w1 ph w)
  show ?case
  proof (cases "w_clipboard w = w_clipboard w1")
    case True
    with step(3) show ?thesis by simp
  next
    case False
    then obtain l where "ph1 = Publishing l" and "w_clipboard w = c_str l"
      using loop_step_clipboard [OF step(2)] by blast
    with reach_publishing [OF step(1)] show ?thesis
      by (metis snd_conv surj_pair)
  qed
qed simp

text \<open>
  C32: with a single argument that is not a directory and \<open>HOME\<close> set to a
  path of fewer than 4075 bytes, the directory watched is
  \<open>$HOME/Pictures/Screenshots\<close>, untruncated, and the argument is the client ID.
\<close>

theorem main_args_default_dir:
  assumes "length argv = 2" and "\<not> stat_is_dir (argv ! 1) w" and "w_home w = Some h"
    and "length (c_str h) < 4075"
  shows "main_args argv w = (Some (c_str h @ ''/Pictures/Screenshots'', c_str (argv ! 1)), w)"
  using assms by (simp add: main_args_def snprintf_str_def PATH_MAX_def)

text \<open>
  C33: the result of \<open>stat\<close> is not checked: a single client ID that names
  no file is rejected as a directory whenever the uninitialised \<open>st_mode\<close>
  happens to have the directory bits.
\<close>

theorem main_args_stat_failure:
  assumes "argv = [prog, arg]" and "c_str arg \<notin> w_paths w" and "w_stat_garbage_dir w"
  shows "main_args argv w = (None, put_err ''Error: Only one argument provided and it is a directory. Please provide a Client ID.'' w)"
  using assms by (simp add: main_args_def stat_is_dir_def)

text \<open>
  C18: the loop sends at most one upload request per kernel read it consumes:
  requests sent plus reads pending never grow over a run of \<open>main_loop\<close>.
\<close>

theorem main_loop_one_request_per_read:
  "length (w_sent (snd (main_loop jp dir client w))) + length (w_reads (snd (main_loop jp dir client w)))
   \<le> length (w_sent w) + length (w_reads w)"
proof (induction jp dir client w rule: main_loop.induct)
  case (1 jp dir client w)
  obtain c w1 where mc: "main_cycle jp dir client w = (c, w1)" by fastforce
  have b: "length (w_sent w1) + length (w_reads w1) \<le> length (w_sent w) + length (w_reads w)"
    using main_cycle_budget [of jp dir client w] mc by simp
  show ?case
  proof (cases c)
    case CycleDone
    with "1.IH" [OF mc [symmetric] CycleDone] b mc show ?thesis
      by (simp add: main_loop_done)
  qed (use mc b in \<open>simp_all add: main_loop.simps [of jp dir client w]\<close>)
qed

text \<open>
  C31: the arguments are rejected exactly when there are fewer than two, or
  there are two and the single argument is (by \<open>stat\<close>) a directory or
  \<open>HOME\<close> is unset.
\<close>

theorem main_args_result:
  "fst (main_args argv w) = None \<longleftrightarrow>
     length argv < 2 \<or> (length argv = 2 \<and> (stat_is_dir (argv ! 1) w \<or> w_home w = None))"
  by (auto simp: main_args_def split: option.splits)

subsection \<open>Witnesses\<close>

text \<open>
  C4: a screenshot is uploaded: when the next read of the watch holds a
  qualifying creation event, the file exists and curl starts, the loop sends
  the upload request for that file, whatever the later reads and replies are.
\<close>

theorem screenshot_uploaded:
  assumes "\<forall>r \<in> set (w_reads w). wf_read r" and "w_inotify_ok w" and "c_str dir \<in> w_watchable w"
    and "w_reads w = ReadEvents evs # rest" and "scan_events dir evs = Some p"
    and "file_exists p w" and "w_curl_ok w"
  shows "upload_request p client \<in> set (w_sent (snd (main_loop jp dir client w)))"
proof -
  have wd: "watch_directory dir w = (WatchFound p, w\<lparr>w_reads := rest\<rparr>)"
    using watch_directory_scan [OF assms(1-3)] assms(4,5) by simp
  note mc = main_cycle_found [OF wd, of jp client]
  have mcd: "main_cycle jp dir client w = (CycleDone, snd (main_cycle jp dir client w))"
    using mc by (metis prod.collapse)
  obtain xs where "w_sent (snd (main_loop jp dir client (snd (main_cycle jp dir client w))))
      = w_sent (snd (main_cycle jp dir client w)) @ xs"
    using main_loop_sent by blast
  then show ?thesis
    unfolding main_loop_done [OF mcd] using mc assms(6,7) by (simp add: file_exists_def)
qed
text \<open>
  C5: screenshots are uploaded in the order the kernel reported them: when
  inotify works, curl starts and every announced file exists, the requests the
  run sends are exactly one per announced screenshot, in order (the first
  image of each read; the rest of a batch is lost, see \<open>watch_directory\<close>).
\<close>

theorem uploads_in_order:
  "\<forall>r \<in> set (w_reads w). wf_read r \<Longrightarrow> w_inotify_ok w \<Longrightarrow> c_str dir \<in> w_watchable w \<Longrightarrow> w_curl_ok w
   \<Longrightarrow> \<forall>p \<in> set (shots dir (w_reads w)). file_exists p w
   \<Longrightarrow> w_sent (snd (main_loop jp dir client w)) = w_sent w @ map (\<lambda>p. upload_request p client) (shots dir (w_reads w))"
proof (induction jp dir client w rule: main_loop.induct)
  case (1 jp dir client w)
  obtain r rest where ws: "watch_scan dir (w_reads w) = (r, rest)" by fastforce
  note sh = watch_scan_shots [OF ws]
  note wd = watch_directory_scan [OF "1.prems"(1-3), unfolded ws]
  show ?case
  proof (cases r)
    case (WatchFound p)
    let ?w1 = "w\<lparr>w_reads := rest\<rparr>"
    have wd': "watch_directory dir w = (WatchFound p, ?w1)" using wd WatchFound by simp
    note mc = main_cycle_found [OF wd', of jp client]
    have ex: "file_exists p ?w1" using "1.prems"(5) sh WatchFound by (simp add: file_exists_def)
    have mcd: "main_cycle jp dir client w = (CycleDone, snd (main_cycle jp dir client w))"
      using mc by (metis prod.collapse)
    have "w_sent (snd (main_loop jp dir client (snd (main_cycle jp dir client w)))) =
        w_sent (snd (main_cycle jp dir client w)) @ map (\<lambda>p. upload_request p client) (shots dir rest)"
      using "1.IH" [OF mcd [symmetric] refl] mc sh "1.prems" WatchFound by (auto simp: file_exists_def)
    then show ?thesis
      unfolding main_loop_done [OF mcd] using mc sh WatchFound "1.prems"(4) ex by simp
  next
    case WatchFatal
    then show ?thesis using wd sh by (simp add: main_loop.simps [of jp dir client w] main_cycle_def put_err_def)
  next
    case WatchBlocked
    then show ?thesis using wd sh by (simp add: main_loop.simps [of jp dir client w] main_cycle_def)
  qed
qed
lemma shot_cycle:
  "\<exists>w'. main_cycle link_echo ''/s'' ''cid'' shot_world = (CycleDone, w')
     \<and> w_clipboard w' = ''ab'' \<and> w_sent w' = [upload_request ''/s/shot.png'' ''cid'']
     \<and> w_clock w' = 1 \<and> w_reads w' = [] \<and> w_inotify_ok w' \<and> w_watchable w' = {''/s''}"
proof -
  have sc: "scan_events ''/s'' [create_event IN_CREATE ''shot.png''] = Some ''/s/shot.png''"
    by (simp add: scan_events_def event_eval join_path_def ends_with_slash_def snprintf_str_def PATH_MAX_def)
  have wd: "watch_directory ''/s'' shot_world = (WatchFound ''/s/shot.png'', shot_world\<lparr>w_reads := []\<rparr>)"
    using watch_directory_scan [of shot_world "''/s''"] sc
    by (simp add: wf_read_def wf_create_event quiet_world_def)
  let ?w3 = "(put_out ''New file created: /s/shot.png'' (shot_world\<lparr>w_reads := []\<rparr>))\<lparr>w_clock := 1\<rparr>"
  have u: "fst (upload_image link_echo ''/s/shot.png'' ''cid'' ?w3) = Some ''ab''
      \<and> w_sent (snd (upload_image link_echo ''/s/shot.png'' ''cid'' ?w3)) = [upload_request ''/s/shot.png'' ''cid'']"
    using upload_image_link [where json_parse = link_echo and image_path = "''/s/shot.png''" and client_id = "''cid''"
        and w = ?w3 and cs = "[''ab'']" and link = "''ab''"]
    by (simp add: quiet_world_def put_out_def file_exists_def next_reply_def CURLE_OK_def chunks_fit_def
        CURL_MAX_WRITE_SIZE_def)
  obtain w4 where up: "upload_image link_echo ''/s/shot.png'' ''cid'' ?w3 = (Some ''ab'', w4)"
    and s4: "w_sent w4 = [upload_request ''/s/shot.png'' ''cid'']"
    using u by (cases "upload_image link_echo ''/s/shot.png'' ''cid'' ?w3") simp
  have k: "w_popen_ok w4 \<and> w_wlcopy_status w4 = 0 \<and> \<not> w_pclose_fails w4 \<and> w_clock w4 = 1
      \<and> w_reads w4 = [] \<and> w_inotify_ok w4 \<and> w_watchable w4 = {''/s''}"
    using upload_image_frame [of link_echo "''/s/shot.png''" "''cid''" ?w3] up
    by (simp add: put_out_def quiet_world_def)
  show ?thesis
    using wd up s4 k
    by (simp add: main_cycle_def Let_def copy_string_to_clipboard_def put_out_def quiet_world_def)
qed

lemma shot_run:
  "\<exists>w'. (loop_step link_echo ''/s'' ''cid'')\<^sup>*\<^sup>* (Watching, shot_world) (Watching, w')
     \<and> main_loop link_echo ''/s'' ''cid'' shot_world = (Waiting, w'\<lparr>w_open_fds := Suc (w_open_fds w')\<rparr>)
     \<and> w_clipboard w' = ''ab'' \<and> w_sent w' = [upload_request ''/s/shot.png'' ''cid''] \<and> w_clock w' = 1"
proof -
  obtain w' where mc: "main_cycle link_echo ''/s'' ''cid'' shot_world = (CycleDone, w')"
    and f: "w_clipboard w' = ''ab''" "w_sent w' = [upload_request ''/s/shot.png'' ''cid'']"
      "w_clock w' = 1" "w_reads w' = []" "w_inotify_ok w'" "w_watchable w' = {''/s''}"
    using shot_cycle by blast
  have "main_loop link_echo ''/s'' ''cid'' w' = (Waiting, w'\<lparr>w_open_fds := Suc (w_open_fds w')\<rparr>)"
    using f by (subst main_loop.simps) (simp add: main_cycle_def watch_directory_def)
  then show ?thesis
    using main_cycle_done_run [OF mc] main_loop_done [OF mc] f by auto
qed

theorem main_loop_refines_steps_witness:
  "\<exists>w'. main_loop link_echo ''/s'' ''cid'' shot_world = (Waiting, w') \<and> w_clipboard w' = ''ab''
     \<and> (loop_step link_echo ''/s'' ''cid'')\<^sup>*\<^sup>* (Watching, shot_world) (Watching, w')"
proof -
  obtain w' where ml: "main_loop link_echo ''/s'' ''cid'' shot_world = (Waiting, w'\<lparr>w_open_fds := Suc (w_open_fds w')\<rparr>)"
    and c: "w_clipboard w' = ''ab''"
    using shot_run by blast
  show ?thesis
    using main_loop_refines_steps [OF ml] ml c by auto
qed

theorem requests_follow_pauses_witness:
  "\<exists>w'. (loop_step link_echo ''/s'' ''cid'')\<^sup>*\<^sup>* (Watching, shot_world) (Watching, w')
     \<and> w_sent w' = [upload_request ''/s/shot.png'' ''cid'']
     \<and> length (w_sent w') + pause_credit Watching \<le> length (w_sent shot_world) + (w_clock w' - w_clock shot_world)"
proof -
  obtain w' where r: "(loop_step link_echo ''/s'' ''cid'')\<^sup>*\<^sup>* (Watching, shot_world) (Watching, w')"
    and s: "w_sent w' = [upload_request ''/s/shot.png'' ''cid'']"
    using shot_run by blast
  show ?thesis
    using requests_follow_pauses [OF r] r s by blast
qed

theorem clipboard_only_uploaded_links_witness:
  "\<exists>w'. (loop_step link_echo ''/s'' ''cid'')\<^sup>*\<^sup>* (Watching, shot_world) (Watching, w') \<and> w_clipboard w' = ''ab''
     \<and> (\<exists>p w1 l w2. (loop_step link_echo ''/s'' ''cid'')\<^sup>*\<^sup>* (Watching, shot_world) (Uploading p, w1)
          \<and> upload_image link_echo p ''cid'' w1 = (Some l, w2) \<and> ''ab'' = c_str l)"
proof -
  obtain w' where r: "(loop_step link_echo ''/s'' ''cid'')\<^sup>*\<^sup>* (Watching, shot_world) (Watching, w')"
    and c: "w_clipboard w' = ''ab''"
    using shot_run by blast
  have "w_clipboard w' \<noteq> w_clipboard shot_world"
    using c by (simp add: quiet_world_def)
  then show ?thesis
    using clipboard_only_uploaded_links [OF r] r c by auto
qed

theorem main_args_default_dir_witness:
  "main_args [''spectacle-autoimgur'', ''myclientid''] (quiet_world\<lparr>w_home := Some ''/home/ana''\<rparr>)
   = (Some (''/home/ana/Pictures/Screenshots'', ''myclientid''), quiet_world\<lparr>w_home := Some ''/home/ana''\<rparr>)"
  using main_args_default_dir [of "[''spectacle-autoimgur'', ''myclientid'']" "quiet_world\<lparr>w_home := Some ''/home/ana''\<rparr>" "''/home/ana''"]
  by (simp add: stat_is_dir_def quiet_world_def)

theorem main_args_stat_failure_witness:
  "main_args [''spectacle-autoimgur'', ''myclientid''] (quiet_world\<lparr>w_stat_garbage_dir := True\<rparr>)
   = (None, put_err ''Error: Only one argument provided and it is a directory. Please provide a Client ID.''
            (quiet_world\<lparr>w_stat_garbage_dir := True\<rparr>))"
  by (rule main_args_stat_failure) (simp_all add: quiet_world_def)

theorem screenshot_uploaded_witness:
  "wf_read (ReadEvents [create_event IN_CREATE ''a.png''])
   \<and> scan_events ''/s'' [create_event IN_CREATE ''a.png''] = Some ''/s/a.png''
   \<and> upload_request ''/s/a.png'' ''cid'' \<in> set (w_sent (snd (main_loop (\<lambda>_. JsonError 0) ''/s'' ''cid''
       (quiet_world\<lparr>w_watchable := {''/s''}, w_paths := {''/s/a.png''},
          w_reads := [ReadEvents [create_event IN_CREATE ''a.png'']]\<rparr>))))"
proof -
  have sc: "scan_events ''/s'' [create_event IN_CREATE ''a.png''] = Some ''/s/a.png''"
    by (simp add: scan_events_def event_eval join_path_def ends_with_slash_def snprintf_str_def PATH_MAX_def)
  show ?thesis
    using screenshot_uploaded [of "quiet_world\<lparr>w_watchable := {''/s''}, w_paths := {''/s/a.png''},
          w_reads := [ReadEvents [create_event IN_CREATE ''a.png'']]\<rparr>" "''/s''"
        "[create_event IN_CREATE ''a.png'']" "[]" "''/s/a.png''" "''cid''" "\<lambda>_. JsonError 0"] sc
    by (simp add: wf_read_def wf_create_event quiet_world_def file_exists_def)
qed
theorem uploads_in_order_witness:
  "wf_read (ReadEvents [create_event IN_CREATE ''a.png'']) \<and> wf_read (ReadEvents [create_event IN_CREATE ''b.jpg''])
   \<and> shots ''/s'' [ReadEvents [create_event IN_CREATE ''a.png''], ReadEvents [create_event IN_CREATE ''b.jpg'']]
       = [''/s/a.png'', ''/s/b.jpg'']
   \<and> w_sent (snd (main_loop (\<lambda>_. JsonError 0) ''/s'' ''cid''
       (quiet_world\<lparr>w_watchable := {''/s''}, w_paths := {''/s/a.png'', ''/s/b.jpg''},
          w_reads := [ReadEvents [create_event IN_CREATE ''a.png''], ReadEvents [create_event IN_CREATE ''b.jpg'']]\<rparr>)))
     = [upload_request ''/s/a.png'' ''cid'', upload_request ''/s/b.jpg'' ''cid'']"
proof -
  have sc: "shots ''/s'' [ReadEvents [create_event IN_CREATE ''a.png''], ReadEvents [create_event IN_CREATE ''b.jpg'']]
       = [''/s/a.png'', ''/s/b.jpg'']"
    by (simp add: scan_events_def event_eval join_path_def ends_with_slash_def snprintf_str_def PATH_MAX_def)
  show ?thesis
    using uploads_in_order [of "quiet_world\<lparr>w_watchable := {''/s''}, w_paths := {''/s/a.png'', ''/s/b.jpg''},
          w_reads := [ReadEvents [create_event IN_CREATE ''a.png''], ReadEvents [create_event IN_CREATE ''b.jpg'']]\<rparr>"
        "''/s''" "\<lambda>_. JsonError 0" "''cid''"] sc
    by (simp add: wf_read_def wf_create_event quiet_world_def file_exists_def)
qed

end
