(* ===== verification/CJson.thy ===== *)
theory CJson
  imports Json
begin

text \<open>
  The cJSON parser that \<open>extract_link_from_response\<close> calls through
  \<open>cJSON_Parse\<close>, modelled from cJSON's \<open>parse_value\<close>, \<open>parse_array\<close>,
  \<open>parse_object\<close>, \<open>parse_string\<close> (with \<open>utf16_literal_to_utf8\<close> and
  \<open>parse_hex4\<close>), \<open>parse_number\<close>, \<open>skip_whitespace\<close> and
  \<open>skip_utf8_bom\<close>. One function \<open>parse\<close> in three modes (a value, the rest of
  an array, the rest of an object) plays the three mutually recursive C
  functions; it carries the nesting depth and fuel. \<open>cjson_parse\<close> is the
  \<open>json_parser\<close> the program uses: the document, or the offset that
  \<open>cJSON_GetErrorPtr\<close> points at. The lemmas show that fuel beyond the input's
  length never runs out, that printing and parsing are inverse, that the
  nesting limit stops the 1001st bracket, that text after a complete value is
  ignored, and what \<open>extract_link_from_response\<close> returns on a real reply.
\<close>

datatype 'a presult = Fail string | Done 'a string | NoFuel

datatype pmode = MValue | MElems "json list" | MMembers "(string \<times> json) list"

definition CJSON_NESTING_LIMIT :: nat where
  "CJSON_NESTING_LIMIT = 1000"

definition is_ws :: "char \<Rightarrow> bool" where
  "is_ws c \<longleftrightarrow> (of_char c :: nat) \<le> 32"

definition skip_ws :: "string \<Rightarrow> string" where
  "skip_ws s = dropWhile is_ws s"

definition UTF8_BOM :: string where
  "UTF8_BOM = [CHR 0xEF, CHR 0xBB, CHR 0xBF]"

definition skip_utf8_bom :: "string \<Rightarrow> string" where
  "skip_utf8_bom s = (if 4 \<le> length s \<and> take 3 s = UTF8_BOM then drop 3 s else s)"

definition is_digit :: "char \<Rightarrow> bool" where
  "is_digit c \<longleftrightarrow> c \<in> set ''0123456789''"

definition hex_val :: "char \<Rightarrow> nat option" where
  "hex_val c =
     (let n = (of_char c :: nat) in
      if 48 \<le> n \<and> n \<le> 57 then Some (n - 48)
      else if 65 \<le> n \<and> n \<le> 70 then Some (n - 55)
      else if 97 \<le> n \<and> n \<le> 102 then Some (n - 87)
      else None)"

definition parse_hex4 :: "string \<Rightarrow> nat" where
  "parse_hex4 s =
     (if 4 \<le> length s \<and> list_all (\<lambda>c. hex_val c \<noteq> None) (take 4 s)
      then foldl (\<lambda>h c. 16 * h + the (hex_val c)) 0 (take 4 s) else 0)"

definition utf8_encode :: "nat \<Rightarrow> string option" where
  "utf8_encode cp =
     (if cp < 0x80 then Some [char_of cp]
      else if cp < 0x800 then Some [char_of (0xC0 + cp div 64), char_of (0x80 + cp mod 64)]
      else if cp < 0x10000 then
        Some [char_of (0xE0 + cp div 4096), char_of (0x80 + (cp div 64) mod 64), char_of (0x80 + cp mod 64)]
      else if cp \<le> 0x10FFFF then
        Some [char_of (0xF0 + cp div 262144), char_of (0x80 + (cp div 4096) mod 64),
              char_of (0x80 + (cp div 64) mod 64), char_of (0x80 + cp mod 64)]
      else None)"

definition utf16_literal_to_utf8 :: "string \<Rightarrow> (string \<times> nat) option" where
  "utf16_literal_to_utf8 s =
     (if length s < 6 then None
      else
        (let c1 = parse_hex4 (drop 2 s) in
         if 0xDC00 \<le> c1 \<and> c1 \<le> 0xDFFF then None
         else if 0xD800 \<le> c1 \<and> c1 \<le> 0xDBFF then
           (let s2 = drop 6 s in
            if length s2 < 6 then None
            else if take 2 s2 \<noteq> [CHR 0x5C, CHR ''u''] then None
            else
              (let c2 = parse_hex4 (drop 2 s2) in
               if c2 < 0xDC00 \<or> 0xDFFF < c2 then None
               else map_option (\<lambda>b. (b, 12)) (utf8_encode (0x10000 + (c1 mod 1024) * 1024 + c2 mod 1024))))
         else map_option (\<lambda>b. (b, 6)) (utf8_encode c1)))"

fun scan_string :: "string \<Rightarrow> nat option" where
  "scan_string [] = None"
| "scan_string (c # cs) =
     (if c = CHR 0x22 then Some 0
      else if c = CHR 0x5C then
        (case cs of [] \<Rightarrow> None | _ # cs' \<Rightarrow> map_option (\<lambda>n. n + 2) (scan_string cs'))
      else map_option Suc (scan_string cs))"

definition simple_escape :: "char \<Rightarrow> char option" where
  "simple_escape e =
     (if e = CHR ''b'' then Some (CHR 0x08) else if e = CHR ''f'' then Some (CHR 0x0C)
      else if e = CHR ''n'' then Some (CHR 0x0A) else if e = CHR ''r'' then Some (CHR 0x0D)
      else if e = CHR ''t'' then Some (CHR 0x09)
      else if e = CHR 0x22 \<or> e = CHR 0x5C \<or> e = CHR ''/'' then Some e
      else None)"

function unescape :: "string \<Rightarrow> string + string" where
  "unescape [] = Inr []"
| "unescape (c # cs) =
     (if c \<noteq> CHR 0x5C then map_sum id (Cons c) (unescape cs)
      else
        (case cs of
           [] \<Rightarrow> Inl (c # cs)
         | e # cs' \<Rightarrow>
             (case simple_escape e of
                Some x \<Rightarrow> map_sum id (Cons x) (unescape cs')
              | None \<Rightarrow>
                  if e \<noteq> CHR ''u'' then Inl (c # cs)
                  else
                    (case utf16_literal_to_utf8 (c # cs) of
                       None \<Rightarrow> Inl (c # cs)
                     | Some (b, n) \<Rightarrow> map_sum id ((@) b) (unescape (drop n (c # cs)))))))"
  by pat_completeness auto
termination
  by (relation "measure length") (auto simp: utf16_literal_to_utf8_def Let_def split: if_splits)

definition parse_string :: "string \<Rightarrow> string presult" where
  "parse_string s =
     (case s of
        [] \<Rightarrow> Fail []
      | c # r \<Rightarrow>
          if c \<noteq> CHR 0x22 then Fail r
          else
            (case scan_string r of
               None \<Rightarrow> Fail r
             | Some n \<Rightarrow>
                 (case unescape (take n r) of
                    Inl bad \<Rightarrow> Fail (bad @ drop n r)
                  | Inr v \<Rightarrow> Done v (drop (Suc n) r))))"

definition is_num_char :: "char \<Rightarrow> bool" where
  "is_num_char c \<longleftrightarrow> c \<in> set ''0123456789+-eE.''"

definition is_sign :: "char \<Rightarrow> bool" where
  "is_sign c \<longleftrightarrow> c = CHR ''+'' \<or> c = CHR ''-''"

definition digits_len :: "string \<Rightarrow> nat" where
  "digits_len s = length (takeWhile is_digit s)"

definition exp_len :: "string \<Rightarrow> nat" where
  "exp_len t =
     (if t \<noteq> [] \<and> (hd t = CHR ''e'' \<or> hd t = CHR ''E'') then
        (let u = tl t; sg = (if u \<noteq> [] \<and> is_sign (hd u) then 1 else 0); k = digits_len (drop sg u)
         in if k = 0 then 0 else 1 + sg + k)
      else 0)"

definition strtod_len :: "string \<Rightarrow> nat" where
  "strtod_len s =
     (let sg = (if s \<noteq> [] \<and> is_sign (hd s) then 1 else 0);
          t = drop sg s;
          a = digits_len t;
          t1 = drop a t;
          b = (if t1 \<noteq> [] \<and> hd t1 = CHR ''.'' then 1 + digits_len (tl t1) else 0)
      in if a = 0 \<and> b \<le> 1 then 0 else sg + a + b + exp_len (drop b t1))"

definition parse_number :: "string \<Rightarrow> json presult" where
  "parse_number s =
     (let n = strtod_len (takeWhile is_num_char s)
      in if n = 0 then Fail s else Done (JNumber (take n s)) (drop n s))"

fun pmode_rank :: "pmode \<Rightarrow> nat" where
  "pmode_rank MValue = 0"
| "pmode_rank _ = 1"

function parse :: "pmode \<Rightarrow> nat \<Rightarrow> nat \<Rightarrow> string \<Rightarrow> json presult" where
  "parse m 0 d s = NoFuel"
| "parse MValue (Suc F) d s =
     (if take 4 s = ''null'' then Done JNull (drop 4 s)
      else if take 5 s = ''false'' then Done JFalse (drop 5 s)
      else if take 4 s = ''true'' then Done JTrue (drop 4 s)
      else
        (case s of
           [] \<Rightarrow> Fail []
         | c # r \<Rightarrow>
             if c = CHR 0x22 then
               (case parse_string s of Done v r' \<Rightarrow> Done (JString v) r' | Fail x \<Rightarrow> Fail x | NoFuel \<Rightarrow> NoFuel)
             else if c = CHR ''-'' \<or> is_digit c then parse_number s
             else if c = CHR ''['' then
               (if CJSON_NESTING_LIMIT \<le> d then Fail s
                else
                  (let t = skip_ws r in
                   if t \<noteq> [] \<and> hd t = CHR '']'' then Done (JArray []) (tl t)
                   else parse (MElems []) F (Suc d) t))
             else if c = CHR ''{'' then
               (if CJSON_NESTING_LIMIT \<le> d then Fail s
                else
                  (let t = skip_ws r in
                   if t \<noteq> [] \<and> hd t = CHR ''}'' then Done (JObject []) (tl t)
                   else parse (MMembers []) F (Suc d) t))
             else Fail s))"
| "parse (MElems acc) (Suc F) d s =
     (case parse MValue (Suc F) d s of
        Done v r \<Rightarrow>
          (let t = skip_ws r in
           if t \<noteq> [] \<and> hd t = CHR '','' then parse (MElems (v # acc)) F d (skip_ws (tl t))
           else if t \<noteq> [] \<and> hd t = CHR '']'' then Done (JArray (rev (v # acc))) (tl t)
           else Fail t)
      | Fail x \<Rightarrow> Fail x
      | NoFuel \<Rightarrow> NoFuel)"
| "parse (MMembers acc) (Suc F) d s =
     (case parse_string s of
        Done k r \<Rightarrow>
          (let t = skip_ws r in
           if t \<noteq> [] \<and> hd t = CHR '':'' then
             (case parse MValue (Suc F) d (skip_ws (tl t)) of
                Done v r2 \<Rightarrow>
                  (let t2 = skip_ws r2 in
                   if t2 \<noteq> [] \<and> hd t2 = CHR '','' then parse (MMembers ((k, v) # acc)) F d (skip_ws (tl t2))
                   else if t2 \<noteq> [] \<and> hd t2 = CHR ''}'' then Done (JObject (rev ((k, v) # acc))) (tl t2)
                   else Fail t2)
              | Fail x \<Rightarrow> Fail x
              | NoFuel \<Rightarrow> NoFuel)
           else Fail t)
      | Fail x \<Rightarrow> Fail x
      | NoFuel \<Rightarrow> NoFuel)"
  by pat_completeness auto
termination
  by (relation "measures [\<lambda>(m, F, d, s). F, \<lambda>(m, F, d, s). pmode_rank m]") auto

definition cjson_parse :: json_parser where
  "cjson_parse s =
     (case parse MValue (Suc (length s)) 0 (skip_ws (skip_utf8_bom s)) of
        Done v r \<Rightarrow> JsonOk v
      | Fail r \<Rightarrow> JsonError (length s - length r)
      | NoFuel \<Rightarrow> JsonError 0)"


text \<open>What every call of \<open>parse\<close> guarantees: a result consumes input, a failure points into it, and fuel beyond the input's length is never exhausted.\<close>

definition parse_progress :: "pmode \<Rightarrow> nat \<Rightarrow> nat \<Rightarrow> string \<Rightarrow> json \<Rightarrow> string \<Rightarrow> bool" where
  "parse_progress m F d s v r \<longleftrightarrow>
     (parse m F d s = Done v r \<longrightarrow> length r < length s)
     \<and> (parse m F d s = Fail r \<longrightarrow> length r \<le> length s)
     \<and> (length s < F \<longrightarrow> parse m F d s \<noteq> NoFuel)"

fun print_json :: "json \<Rightarrow> string"
and print_elems :: "json list \<Rightarrow> string"
and print_members :: "(string \<times> json) list \<Rightarrow> string" where
  "print_json JNull = ''null''"
| "print_json JFalse = ''false''"
| "print_json JTrue = ''true''"
| "print_json (JNumber t) = t"
| "print_json (JString s) = json_string s"
| "print_json (JArray vs) = ''['' @ print_elems vs @ '']''"
| "print_json (JObject kvs) = ''{'' @ print_members kvs @ ''}''"
| "print_elems [] = []"
| "print_elems [v] = print_json v"
| "print_elems (v # vs) = print_json v @ '','' @ print_elems vs"
| "print_members [] = []"
| "print_members [(k, v)] = json_string k @ '':'' @ print_json v"
| "print_members ((k, v) # kvs) = json_string k @ '':'' @ print_json v @ '','' @ print_members kvs"

fun json_depth :: "json \<Rightarrow> nat" where
  "json_depth (JArray vs) = Suc (fold max (map json_depth vs) 0)"
| "json_depth (JObject kvs) = Suc (fold max (map (\<lambda>(k, v). json_depth v) kvs) 0)"
| "json_depth _ = 0"

fun wf_json :: "json \<Rightarrow> bool" where
  "wf_json (JString s) \<longleftrightarrow> NUL \<notin> set s"
| "wf_json (JNumber t) \<longleftrightarrow> t \<noteq> [] \<and> (hd t = CHR ''-'' \<or> is_digit (hd t))
     \<and> list_all is_num_char t \<and> strtod_len t = length t"
| "wf_json (JArray vs) \<longleftrightarrow> list_all wf_json vs"
| "wf_json (JObject kvs) \<longleftrightarrow> list_all (\<lambda>(k, v). NUL \<notin> set k \<and> wf_json v) kvs"
| "wf_json _ \<longleftrightarrow> True"

lemmas cjson_eval = cjson_parse_def skip_utf8_bom_def UTF8_BOM_def skip_ws_def is_ws_def is_digit_def
  parse_string_def CJSON_NESTING_LIMIT_def parse_number_def is_num_char_def strtod_len_def digits_len_def
  exp_len_def is_sign_def

lemma skip_ws_suffix: "suffix (skip_ws s) s"
  by (simp add: skip_ws_def suffix_dropWhile)

lemma length_skip_ws [simp]: "length (skip_ws s) \<le> length s"
  using skip_ws_suffix suffix_length_le by blast

lemma length_skip_utf8_bom: "length (skip_utf8_bom s) \<le> length s"
  by (simp add: skip_utf8_bom_def)

lemma scan_string_lt: "scan_string s = Some n \<Longrightarrow> n < length s"
  by (induction s arbitrary: n rule: scan_string.induct) (auto split: if_splits list.splits)

lemma unescape_Inl_len: "unescape s = Inl bad \<Longrightarrow> length bad \<le> length s"
proof (induction "length s" arbitrary: s bad rule: less_induct)
  case less
  show ?case
  proof (cases s)
    case Nil
    with less.prems show ?thesis by simp
  next
    case (Cons c cs)
    have IH: "\<And>t b. length t < length s \<Longrightarrow> unescape t = Inl b \<Longrightarrow> length b \<le> length s"
      using less.hyps by fastforce
    have d: "length (drop n (c # cs)) < length s" if "utf16_literal_to_utf8 (c # cs) = Some (b, n)" for b n
      using that Cons by (auto simp: utf16_literal_to_utf8_def Let_def split: if_splits)
    have ms: "map_sum id f x = Inl bad \<Longrightarrow> x = Inl bad" for f :: "string \<Rightarrow> string" and x
      by (cases x) auto
    show ?thesis
    proof (cases "c = CHR 0x5C")
      case False
      with less.prems Cons have "unescape cs = Inl bad" by (simp add: ms)
      with IH [of cs] Cons show ?thesis by simp
    next
      case True
      show ?thesis
      proof (cases cs)
        case Nil
        with less.prems Cons True show ?thesis by simp
      next
        case (Cons e cs')
        note cs = this
        show ?thesis
        proof (cases "simple_escape e")
          case (Some x)
          with less.prems \<open>s = c # cs\<close> True cs have "unescape cs' = Inl bad" by (simp add: ms)
          with IH [of cs'] \<open>s = c # cs\<close> cs show ?thesis by simp
        next
          case None
          show ?thesis
          proof (cases "e = CHR ''u'' \<and> utf16_literal_to_utf8 (c # cs) \<noteq> None")
            case False
            with less.prems \<open>s = c # cs\<close> True cs None show ?thesis
              by (cases "e = CHR ''u''") (auto split: option.splits)
          next
            case u: True
            then obtain b' n where bn: "utf16_literal_to_utf8 (c # cs) = Some (b', n)" by auto
            with less.prems \<open>s = c # cs\<close> True cs None u have "unescape (drop n (c # cs)) = Inl bad"
              by (simp add: ms)
            with IH d [OF bn] show ?thesis by blast
          qed
        qed
      qed
    qed
  qed
qed

lemma parse_string_len:
  "(parse_string s = Done v r \<longrightarrow> length r < length s) \<and> (parse_string s = Fail r \<longrightarrow> length r \<le> length s)
   \<and> parse_string s \<noteq> NoFuel"
proof (cases s)
  case (Cons c t)
  show ?thesis
  proof (cases "c = CHR 0x22")
    case True
    show ?thesis
    proof (cases "scan_string t")
      case (Some n)
      have "length bad + (length t - n) \<le> length t" if "unescape (take n t) = Inl bad" for bad
        using unescape_Inl_len [OF that] scan_string_lt [OF Some] by simp
      with Cons True Some scan_string_lt [OF Some] show ?thesis
        by (auto simp: parse_string_def split: sum.splits)
    qed (use Cons True in \<open>simp add: parse_string_def\<close>)
  qed (use Cons in \<open>simp add: parse_string_def\<close>)
qed (simp add: parse_string_def)

lemma digits_len_le: "digits_len s \<le> length s"
  by (simp add: digits_len_def length_takeWhile_le)

lemma exp_len_le: "exp_len t \<le> length t"
proof (cases t)
  case (Cons c u)
  define sg where "sg = (if u \<noteq> [] \<and> is_sign (hd u) then 1 else (0::nat))"
  have "sg \<le> length u" by (cases u) (auto simp: sg_def)
  moreover have "digits_len (drop sg u) \<le> length u - sg"
    using digits_len_le [of "drop sg u"] by simp
  moreover have "exp_len t \<le> (if digits_len (drop sg u) = 0 then 0 else 1 + sg + digits_len (drop sg u))"
    using Cons by (simp add: exp_len_def Let_def sg_def)
  ultimately show ?thesis
    using Cons by (auto split: if_splits)
qed (simp add: exp_len_def)

lemma strtod_len_le: "strtod_len s \<le> length s"
proof -
  define sg where "sg = (if s \<noteq> [] \<and> is_sign (hd s) then 1 else (0::nat))"
  define t where "t = drop sg s"
  define a where "a = digits_len t"
  define t1 where "t1 = drop a t"
  define b where "b = (if t1 \<noteq> [] \<and> hd t1 = CHR ''.'' then 1 + digits_len (tl t1) else 0)"
  have sg: "sg \<le> length s" by (cases s) (auto simp: sg_def)
  have a: "a \<le> length t" by (simp add: a_def digits_len_le)
  have b: "b \<le> length t1"
    using digits_len_le [of "tl t1"] by (cases t1) (auto simp: b_def)
  have e: "exp_len (drop b t1) \<le> length t1 - b"
    using exp_len_le [of "drop b t1"] by simp
  have "strtod_len s = (if a = 0 \<and> b \<le> 1 then 0 else sg + a + b + exp_len (drop b t1))"
    unfolding strtod_len_def Let_def sg_def [symmetric] t_def [symmetric] a_def [symmetric]
      t1_def [symmetric] b_def [symmetric] ..
  moreover have "sg + a + b + exp_len (drop b t1) \<le> length s"
    using sg a b e by (simp add: t_def t1_def)
  ultimately show ?thesis
    by simp
qed

lemma parse_number_len:
  "(parse_number s = Done v r \<longrightarrow> length r < length s) \<and> (parse_number s = Fail r \<longrightarrow> r = s)
   \<and> parse_number s \<noteq> NoFuel"
proof -
  have "strtod_len (takeWhile is_num_char s) \<le> length s"
    using strtod_len_le [of "takeWhile is_num_char s"] length_takeWhile_le [of is_num_char s] by linarith
  then show ?thesis by (auto simp: parse_number_def Let_def)
qed

lemma length_skip_ws_less [simp]: "length (skip_ws s) < Suc (length s)"
  using length_skip_ws [of s] by linarith

lemma parse_value_cons:
  assumes "take 4 s \<noteq> ''null''" "take 5 s \<noteq> ''false''" "take 4 s \<noteq> ''true''" "s = c # r"
  shows "parse MValue (Suc F) d s =
    (if c = CHR 0x22 then
       (case parse_string s of Done v r' \<Rightarrow> Done (JString v) r' | Fail x \<Rightarrow> Fail x | NoFuel \<Rightarrow> NoFuel)
     else if c = CHR ''-'' \<or> is_digit c then parse_number s
     else if c = CHR ''['' then
       (if CJSON_NESTING_LIMIT \<le> d then Fail s
        else (let t = skip_ws r in
              if t \<noteq> [] \<and> hd t = CHR '']'' then Done (JArray []) (tl t) else parse (MElems []) F (Suc d) t))
     else if c = CHR ''{'' then
       (if CJSON_NESTING_LIMIT \<le> d then Fail s
        else (let t = skip_ws r in
              if t \<noteq> [] \<and> hd t = CHR ''}'' then Done (JObject []) (tl t) else parse (MMembers []) F (Suc d) t))
     else Fail s)"
  using assms(1-3) by (simp only: parse.simps(2) if_False) (simp add: assms(4))

lemma take_lit_len: "take n s = t \<Longrightarrow> length t = n \<Longrightarrow> n \<le> length s"
  by (metis length_take min.absorb_iff2 min.commute)

lemma tl_len: "t \<noteq> [] \<Longrightarrow> t = skip_ws r \<Longrightarrow> length (tl t) < length r"
proof -
  assume "t \<noteq> []" and t: "t = skip_ws r"
  then have "r \<noteq> []" by (auto simp: skip_ws_def)
  have "length (skip_ws r) \<le> length r" by (rule length_skip_ws)
  moreover have "0 < length r" using \<open>r \<noteq> []\<close> by simp
  ultimately show ?thesis unfolding t length_tl by linarith
qed

lemma parse_progress_value:
  assumes IH: "\<And>m d s v r. parse_progress m F d s v r"
  shows "parse_progress MValue (Suc F) d s v r"
proof (cases "take 4 s = ''null'' \<or> take 5 s = ''false'' \<or> take 4 s = ''true''")
  case True
  then have "4 \<le> length s"
    by (auto dest: take_lit_len)
  with True show ?thesis unfolding parse_progress_def by auto
next
  case lit: False
  show ?thesis
  proof (cases s)
    case Nil
    with lit show ?thesis unfolding parse_progress_def by simp
  next
    case (Cons c rest)
    have l: "take 4 s \<noteq> ''null''" "take 5 s \<noteq> ''false''" "take 4 s \<noteq> ''true''"
      using lit by auto
    note eq = parse_value_cons [OF l Cons, of F d]
    have ws: "length (skip_ws rest) < length s" using Cons by simp
    have sub: "(parse m' F d' (skip_ws rest) = Done v r \<longrightarrow> length r < length s)
      \<and> (parse m' F d' (skip_ws rest) = Fail r \<longrightarrow> length r \<le> length s)
      \<and> (length s < Suc F \<longrightarrow> parse m' F d' (skip_ws rest) \<noteq> NoFuel)" for m' d'
      using IH [of m' d' "skip_ws rest" v r, unfolded parse_progress_def] ws by auto
    have tl: "length (tl (skip_ws rest)) < length s" if "skip_ws rest \<noteq> []"
      using tl_len [OF that refl] Cons by simp
    consider (str) "c = CHR 0x22" | (num) "c \<noteq> CHR 0x22" "c = CHR ''-'' \<or> is_digit c"
      | (arr) "c \<noteq> CHR 0x22" "\<not> (c = CHR ''-'' \<or> is_digit c)" "c = CHR ''[''"
      | (obj) "c \<noteq> CHR 0x22" "\<not> (c = CHR ''-'' \<or> is_digit c)" "c \<noteq> CHR ''[''" "c = CHR ''{''"
      | (other) "c \<noteq> CHR 0x22" "\<not> (c = CHR ''-'' \<or> is_digit c)" "c \<noteq> CHR ''[''" "c \<noteq> CHR ''{''"
      by blast
    then show ?thesis
    proof cases
      case str
      then show ?thesis unfolding parse_progress_def
        unfolding eq using parse_string_len [of s] by (simp split: presult.split)
    next
      case num
      then show ?thesis unfolding parse_progress_def
        unfolding eq using parse_number_len [of s v r] by auto
    next
      case arr
      then show ?thesis unfolding parse_progress_def
        unfolding eq using sub tl by (auto simp: Let_def)
    next
      case obj
      then show ?thesis unfolding parse_progress_def
        unfolding eq using sub tl by (auto simp: Let_def)
    next
      case other
      then show ?thesis unfolding parse_progress_def
        unfolding eq by simp
    qed
  qed
qed

lemma parse_progress_elems:
  assumes IH: "\<And>m d s v r. parse_progress m F d s v r"
    and V: "\<And>d s v r. parse_progress MValue (Suc F) d s v r"
  shows "parse_progress (MElems acc) (Suc F) d s v r"
proof (cases "parse MValue (Suc F) d s")
  case (Done v' r')
  then have lt: "length r' < length s" using V [of d s v' r', unfolded parse_progress_def] by simp
  define t where "t = skip_ws r'"
  have tl: "length (tl t) < length s" if "t \<noteq> []"
    using tl_len [OF that t_def] lt by simp
  have sub: "(parse m' F d' (skip_ws (tl t)) = Done v r \<longrightarrow> length r < length s)
    \<and> (parse m' F d' (skip_ws (tl t)) = Fail r \<longrightarrow> length r \<le> length s)
    \<and> (length s < Suc F \<longrightarrow> parse m' F d' (skip_ws (tl t)) \<noteq> NoFuel)"
    if "t \<noteq> []" for m' d'
    using IH [of m' d' "skip_ws (tl t)" v r, unfolded parse_progress_def] tl [OF that] length_skip_ws [of "tl t"] by auto
  have "length t \<le> length s" using lt length_skip_ws [of r'] unfolding t_def by linarith
  then show ?thesis
    unfolding parse_progress_def parse.simps(3) Done using sub tl by (auto simp: Let_def simp flip: t_def)
next
  case (Fail x)
  then have "parse (MElems acc) (Suc F) d s = Fail x" by simp
  then show ?thesis unfolding parse_progress_def using V [of d s v x, unfolded parse_progress_def] Fail by auto
next
  case NoFuel
  then have "parse (MElems acc) (Suc F) d s = NoFuel" by simp
  then show ?thesis unfolding parse_progress_def using V [of d s v r, unfolded parse_progress_def] NoFuel by auto
qed

lemma parse_progress_members:
  assumes IH: "\<And>m d s v r. parse_progress m F d s v r"
    and V: "\<And>d s v r. parse_progress MValue (Suc F) d s v r"
  shows "parse_progress (MMembers acc) (Suc F) d s v r"
proof (cases "parse_string s")
  case (Done k r0)
  then have lt0: "length r0 < length s" using parse_string_len [of s] by blast
  define t where "t = skip_ws r0"
  show ?thesis
  proof (cases "t \<noteq> [] \<and> hd t = CHR '':''")
    case colon: True
    define u where "u = skip_ws (tl t)"
    have ltu: "length u < length s"
      using tl_len [OF conjunct1 [OF colon] t_def] lt0 length_skip_ws [of "tl t"] by (simp add: u_def)
    show ?thesis
    proof (cases "parse MValue (Suc F) d u")
      case (Done v' r')
      then have lt: "length r' < length s" using V [of d u v' r', unfolded parse_progress_def] ltu by simp
      define t2 where "t2 = skip_ws r'"
      have tl: "length (tl t2) < length s" if "t2 \<noteq> []"
        using tl_len [OF that t2_def] lt by simp
      have sub: "(parse m' F d' (skip_ws (tl t2)) = Done v r \<longrightarrow> length r < length s)
        \<and> (parse m' F d' (skip_ws (tl t2)) = Fail r \<longrightarrow> length r \<le> length s)
        \<and> (length s < Suc F \<longrightarrow> parse m' F d' (skip_ws (tl t2)) \<noteq> NoFuel)"
        if "t2 \<noteq> []" for m' d'
        using IH [of m' d' "skip_ws (tl t2)" v r, unfolded parse_progress_def] tl [OF that] length_skip_ws [of "tl t2"] by auto
      have "length t2 \<le> length s" using lt length_skip_ws [of r'] unfolding t2_def by linarith
      then show ?thesis
        unfolding parse_progress_def parse.simps(4) using \<open>parse_string s = Done k r0\<close> colon Done sub tl
        by (auto simp: Let_def simp flip: t_def u_def t2_def)
    next
      case (Fail x)
      then have "parse (MMembers acc) (Suc F) d s = Fail x"
        using \<open>parse_string s = Done k r0\<close> colon by (simp add: t_def u_def Let_def)
      then show ?thesis unfolding parse_progress_def using V [of d u v x, unfolded parse_progress_def] Fail ltu by auto
    next
      case NoFuel
      then have "parse (MMembers acc) (Suc F) d s = NoFuel"
        using \<open>parse_string s = Done k r0\<close> colon by (simp add: t_def u_def Let_def)
      then show ?thesis unfolding parse_progress_def using V [of d u v r, unfolded parse_progress_def] NoFuel ltu by auto
    qed
  next
    case False
    then have "parse (MMembers acc) (Suc F) d s = Fail t"
      using Done by (subst parse.simps(4)) (auto simp: t_def Let_def simp del: parse.simps)
    moreover have "length t \<le> length s" using lt0 length_skip_ws [of r0] unfolding t_def by linarith
    ultimately show ?thesis unfolding parse_progress_def by (auto simp del: parse.simps)
  qed
next
  case (Fail x)
  then have "parse (MMembers acc) (Suc F) d s = Fail x" by simp
  then show ?thesis unfolding parse_progress_def using parse_string_len [of s _ x] Fail by auto
next
  case NoFuel
  then show ?thesis unfolding parse_progress_def using parse_string_len [of s] by simp
qed

lemma parse_len: "parse_progress m F d s v r"
proof (induction F arbitrary: m d s v r)
  case 0
  then show ?case by (simp add: parse_progress_def)
next
  case (Suc F)
  have V: "parse_progress MValue (Suc F) d s v r" for d s v r
    using Suc.IH by (rule parse_progress_value)
  show ?case
    using parse_progress_elems [OF Suc.IH V] parse_progress_members [OF Suc.IH V] V by (cases m) auto
qed

lemmas parse_lenD = parse_len [unfolded parse_progress_def]

lemma scan_string_escape: "scan_string (json_escape s @ CHR 0x22 # rest) = Some (length (json_escape s))"
  by (induction s) auto

lemma simple_escape_quote_bsl: "simple_escape (CHR 0x22) = Some (CHR 0x22)" "simple_escape (CHR 0x5C) = Some (CHR 0x5C)"
  by (simp_all add: simple_escape_def)

lemma unescape_escape: "unescape (json_escape s) = Inr s"
  by (induction s) (auto simp: simple_escape_quote_bsl)

lemma parse_string_json_string: "parse_string (json_string s @ rest) = Done s rest"
  by (simp add: parse_string_def json_string_def scan_string_escape unescape_escape)

lemma skip_ws_nonws: "s \<noteq> [] \<Longrightarrow> \<not> is_ws (hd s) \<Longrightarrow> skip_ws s = s"
  by (cases s) (auto simp: skip_ws_def)

lemma parse_number_lexeme:
  assumes "wf_json (JNumber t)" and "rest = [] \<or> \<not> is_num_char (hd rest)"
  shows "parse_number (t @ rest) = Done (JNumber t) rest"
proof -
  have all: "\<forall>c \<in> set t. is_num_char c" using assms(1) by (simp add: list_all_iff)
  have "takeWhile is_num_char rest = []" using assms(2) by (cases rest) auto
  then have tw: "takeWhile is_num_char (t @ rest) = t" using all by (simp add: takeWhile_append2)
  have "strtod_len t = length t" "t \<noteq> []" using assms(1) by auto
  with tw show ?thesis by (simp add: parse_number_def)
qed

lemma print_json_head:
  "wf_json v \<Longrightarrow> print_json v \<noteq> [] \<and> hd (print_json v) \<in> set (''nft'' @ [CHR 0x22] @ ''[{-0123456789'')"
  by (cases v) (auto simp: json_string_def is_digit_def)

lemma head_not_ws: "c \<in> set (''nft'' @ [CHR 0x22] @ ''[{-0123456789'') \<Longrightarrow> \<not> is_ws c
    \<and> c \<noteq> CHR '']'' \<and> c \<noteq> CHR ''}''"
  by (auto simp: is_ws_def)

lemma fold_max_init: "a \<le> fold max xs (a::nat)"
proof (induction xs arbitrary: a)
  case (Cons y ys)
  from Cons.IH [of "max y a"] show ?case by simp
qed simp

lemma fold_max_ge: "x \<in> set xs \<Longrightarrow> x \<le> fold max xs (a::nat)"
proof (induction xs arbitrary: a)
  case (Cons y ys)
  show ?case
  proof (cases "x = y")
    case True
    with fold_max_init [of "max y a" ys] show ?thesis by simp
  next
    case False
    with Cons show ?thesis by simp
  qed
qed simp

lemma take_hd: "take n s = x # y \<Longrightarrow> hd s = x"
  by (cases s; cases n) auto

lemma not_lit:
  assumes "s \<noteq> []" and "hd s \<noteq> CHR ''n''" and "hd s \<noteq> CHR ''f''" and "hd s \<noteq> CHR ''t''"
  shows "take 4 s \<noteq> ''null''" "take 5 s \<noteq> ''false''" "take 4 s \<noteq> ''true''"
  using assms by (auto dest: take_hd)

lemma parse_value_bracket:
  assumes "s = CHR ''['' # r" and "\<not> CJSON_NESTING_LIMIT \<le> d"
  shows "parse MValue (Suc F) d s =
    (if skip_ws r \<noteq> [] \<and> hd (skip_ws r) = CHR '']'' then Done (JArray []) (tl (skip_ws r))
     else parse (MElems []) F (Suc d) (skip_ws r))"
  using assms by (simp add: is_digit_def Let_def)

lemma parse_value_brace:
  assumes "s = CHR ''{'' # r" and "\<not> CJSON_NESTING_LIMIT \<le> d"
  shows "parse MValue (Suc F) d s =
    (if skip_ws r \<noteq> [] \<and> hd (skip_ws r) = CHR ''}'' then Done (JObject []) (tl (skip_ws r))
     else parse (MMembers []) F (Suc d) (skip_ws r))"
  using assms by (simp add: is_digit_def Let_def)

lemma parse_print_array:
  assumes IH: "\<And>F d acc rest. vs \<noteq> [] \<Longrightarrow> list_all wf_json vs \<Longrightarrow> (\<forall>x \<in> set vs. d + json_depth x \<le> CJSON_NESTING_LIMIT)
      \<Longrightarrow> length (print_elems vs @ CHR '']'' # rest) < F
      \<Longrightarrow> parse (MElems acc) F d (print_elems vs @ CHR '']'' # rest) = Done (JArray (rev acc @ vs)) rest"
    and wf: "wf_json (JArray vs)" and dep: "d + json_depth (JArray vs) \<le> CJSON_NESTING_LIMIT"
    and len: "length (print_json (JArray vs) @ rest) < F"
  shows "parse MValue F d (print_json (JArray vs) @ rest) = Done (JArray vs) rest"
proof -
  obtain F' where F: "F = Suc F'" using len by (cases F) auto
  have cr: "print_json (JArray vs) @ rest = CHR ''['' # (print_elems vs @ CHR '']'' # rest)" by simp
  have hn: "print_json (JArray vs) @ rest \<noteq> []" "hd (print_json (JArray vs) @ rest) \<noteq> CHR ''n''"
    "hd (print_json (JArray vs) @ rest) \<noteq> CHR ''f''" "hd (print_json (JArray vs) @ rest) \<noteq> CHR ''t''"
    unfolding cr by simp_all
  note nl = not_lit [OF hn]
  have lim: "\<not> CJSON_NESTING_LIMIT \<le> d" and sub: "\<forall>x \<in> set vs. Suc d + json_depth x \<le> CJSON_NESTING_LIMIT"
  proof -
    have "json_depth x \<le> fold max (map json_depth vs) 0" if "x \<in> set vs" for x
      using that by (intro fold_max_ge) simp
    with dep show "\<not> CJSON_NESTING_LIMIT \<le> d" "\<forall>x \<in> set vs. Suc d + json_depth x \<le> CJSON_NESTING_LIMIT"
      by (fastforce simp: CJSON_NESTING_LIMIT_def)+
  qed
  show ?thesis
  proof (cases vs)
    case Nil
    with lim show ?thesis
      using parse_value_cons [OF nl cr, of F' d] F by (simp add: skip_ws_def is_ws_def is_digit_def)
  next
    case (Cons v vs')
    have wfv: "wf_json v" using wf Cons by simp
    have ph: "print_json v \<noteq> []" "\<not> is_ws (hd (print_json v))" "hd (print_json v) \<noteq> CHR '']''"
      using print_json_head [OF wfv] head_not_ws by blast+
    have pe: "print_elems vs @ CHR '']'' # rest = print_json v @ (if vs' = [] then [] else CHR '','' # print_elems vs') @ CHR '']'' # rest"
      using Cons by (cases vs') auto
    have ws: "skip_ws (print_elems vs @ CHR '']'' # rest) = print_elems vs @ CHR '']'' # rest"
      and nb: "hd (print_elems vs @ CHR '']'' # rest) \<noteq> CHR '']''"
      using ph unfolding pe by (auto intro!: skip_ws_nonws)
    have len: "length (print_elems vs @ CHR '']'' # rest) < F'" using len F by simp
    have "parse (MElems []) F' (Suc d) (print_elems vs @ CHR '']'' # rest) = Done (JArray vs) rest"
      using IH [where acc = "[]" and d = "Suc d", OF _ _ _ len] wf sub Cons by simp
    then show ?thesis
      using parse_value_bracket [OF cr lim, of F'] F ws nb by simp
  qed
qed

lemma parse_print_object:
  assumes IH: "\<And>F d macc rest. kvs \<noteq> [] \<Longrightarrow> list_all (\<lambda>(k, v). NUL \<notin> set k \<and> wf_json v) kvs
      \<Longrightarrow> (\<forall>(k, x) \<in> set kvs. d + json_depth x \<le> CJSON_NESTING_LIMIT)
      \<Longrightarrow> length (print_members kvs @ CHR ''}'' # rest) < F
      \<Longrightarrow> parse (MMembers macc) F d (print_members kvs @ CHR ''}'' # rest) = Done (JObject (rev macc @ kvs)) rest"
    and wf: "wf_json (JObject kvs)" and dep: "d + json_depth (JObject kvs) \<le> CJSON_NESTING_LIMIT"
    and len: "length (print_json (JObject kvs) @ rest) < F"
  shows "parse MValue F d (print_json (JObject kvs) @ rest) = Done (JObject kvs) rest"
proof -
  obtain F' where F: "F = Suc F'" using len by (cases F) auto
  have cr: "print_json (JObject kvs) @ rest = CHR ''{'' # (print_members kvs @ CHR ''}'' # rest)" by simp
  have lim: "\<not> CJSON_NESTING_LIMIT \<le> d"
    and sub: "\<forall>(k, x) \<in> set kvs. Suc d + json_depth x \<le> CJSON_NESTING_LIMIT"
  proof -
    have "json_depth x \<le> fold max (map (\<lambda>(k, v). json_depth v) kvs) 0" if "(k, x) \<in> set kvs" for k x
      using that by (intro fold_max_ge) force
    with dep show "\<not> CJSON_NESTING_LIMIT \<le> d"
      "\<forall>(k, x) \<in> set kvs. Suc d + json_depth x \<le> CJSON_NESTING_LIMIT"
      by (fastforce simp: CJSON_NESTING_LIMIT_def)+
  qed
  show ?thesis
  proof (cases kvs)
    case Nil
    with lim show ?thesis
      using parse_value_brace [OF cr lim, of F'] F by (simp add: skip_ws_def is_ws_def)
  next
    case (Cons kv kvs')
    obtain k v where kv: "kv = (k, v)" by fastforce
    have pe: "print_members kvs @ CHR ''}'' # rest
        = CHR 0x22 # json_escape k @ CHR 0x22 # CHR '':'' # print_json v
          @ (if kvs' = [] then [] else CHR '','' # print_members kvs') @ CHR ''}'' # rest"
      using Cons kv by (cases kvs') (auto simp: json_string_def)
    have ws: "skip_ws (print_members kvs @ CHR ''}'' # rest) = print_members kvs @ CHR ''}'' # rest"
      and nb: "hd (print_members kvs @ CHR ''}'' # rest) \<noteq> CHR ''}''"
      unfolding pe by (auto intro!: skip_ws_nonws simp: is_ws_def)
    have len: "length (print_members kvs @ CHR ''}'' # rest) < F'" using len F by simp
    have "parse (MMembers []) F' (Suc d) (print_members kvs @ CHR ''}'' # rest) = Done (JObject kvs) rest"
      using IH [where macc = "[]" and d = "Suc d", OF _ _ _ len] wf sub Cons by simp
    then show ?thesis
      using parse_value_brace [OF cr lim, of F'] F ws nb by simp
  qed
qed

lemma parse_print:
  shows "wf_json v \<Longrightarrow> d + json_depth v \<le> CJSON_NESTING_LIMIT \<Longrightarrow> length (print_json v @ rest) < F
      \<Longrightarrow> (\<forall>t. v = JNumber t \<longrightarrow> rest = [] \<or> \<not> is_num_char (hd rest))
      \<Longrightarrow> parse MValue F d (print_json v @ rest) = Done v rest"
    and "vs \<noteq> [] \<Longrightarrow> list_all wf_json vs \<Longrightarrow> (\<forall>x \<in> set vs. d + json_depth x \<le> CJSON_NESTING_LIMIT)
      \<Longrightarrow> length (print_elems vs @ CHR '']'' # rest) < F
      \<Longrightarrow> parse (MElems acc) F d (print_elems vs @ CHR '']'' # rest) = Done (JArray (rev acc @ vs)) rest"
    and "kvs \<noteq> [] \<Longrightarrow> list_all (\<lambda>(k, v). NUL \<notin> set k \<and> wf_json v) kvs
      \<Longrightarrow> (\<forall>(k, x) \<in> set kvs. d + json_depth x \<le> CJSON_NESTING_LIMIT)
      \<Longrightarrow> length (print_members kvs @ CHR ''}'' # rest) < F
      \<Longrightarrow> parse (MMembers macc) F d (print_members kvs @ CHR ''}'' # rest) = Done (JObject (rev macc @ kvs)) rest"
proof (induction v and vs and kvs arbitrary: F d rest and F d acc rest and F d macc rest
    rule: print_json_print_elems_print_members.induct)
  case 1
  then show ?case by (cases F) auto
next
  case 2
  then show ?case by (cases F) auto
next
  case 3
  then show ?case by (cases F) auto
next
  case (4 t)
  then obtain F' where F: "F = Suc F'" by (cases F) auto
  have ne: "t \<noteq> []" and h: "hd t = CHR ''-'' \<or> is_digit (hd t)" using "4.prems"(1) by auto
  then obtain c r where cr: "t @ rest = c # r" "c = hd t" by (cases t) auto
  have hn: "t @ rest \<noteq> []" "hd (t @ rest) \<noteq> CHR ''n''" "hd (t @ rest) \<noteq> CHR ''f''" "hd (t @ rest) \<noteq> CHR ''t''"
    using h ne by (auto simp: is_digit_def)
  note nl = not_lit [OF hn]
  have nq: "c \<noteq> CHR 0x22" using h cr by (auto simp: is_digit_def)
  have pn: "parse_number (t @ rest) = Done (JNumber t) rest"
    using parse_number_lexeme [OF "4.prems"(1)] "4.prems"(4) by simp
  have "parse MValue (Suc F') d (t @ rest) = parse_number (t @ rest)"
    unfolding parse_value_cons [OF nl cr(1)] using h cr(2) nq by simp
  with pn F show ?case by simp
next
  case (5 str)
  then obtain F' where F: "F = Suc F'" by (cases F) auto
  have cr: "print_json (JString str) @ rest = CHR 0x22 # (json_escape str @ CHR 0x22 # rest)"
    by (simp add: json_string_def)
  have hn: "print_json (JString str) @ rest \<noteq> []" "hd (print_json (JString str) @ rest) \<noteq> CHR ''n''"
    "hd (print_json (JString str) @ rest) \<noteq> CHR ''f''" "hd (print_json (JString str) @ rest) \<noteq> CHR ''t''"
    unfolding cr by simp_all
  note nl = not_lit [OF hn]
  show ?case
    using parse_value_cons [OF nl cr, of F' d] parse_string_json_string [of str rest] F by simp
next
  case (6 vs)
  from "6.IH" "6.prems"(1-3) show ?case by (rule parse_print_array)
next
  case (7 kvs)
  from "7.IH" "7.prems"(1-3) show ?case by (rule parse_print_object)
next
  case 8
  then show ?case by simp
next
  case (9 v)
  then obtain F' where F: "F = Suc F'" by (cases F) auto
  have "parse MValue (Suc F') d (print_json v @ CHR '']'' # rest) = Done v (CHR '']'' # rest)"
    by (rule "9.IH") (use "9.prems" F in \<open>simp_all add: is_num_char_def\<close>)
  then show ?case
    unfolding F by (subst parse.simps(3)) (simp add: skip_ws_def is_ws_def del: parse.simps)
next
  case (10 v v' vs)
  then obtain F' where F: "F = Suc F'" by (cases F) auto
  let ?r = "print_elems (v' # vs) @ CHR '']'' # rest"
  have wf: "wf_json v'" using "10.prems"(2) by simp
  have pe: "?r = print_json v' @ (if vs = [] then [] else CHR '','' # print_elems vs) @ CHR '']'' # rest"
    by (cases vs) auto
  have ph: "print_json v' \<noteq> []" "\<not> is_ws (hd (print_json v'))"
    using print_json_head [OF wf] head_not_ws by blast+
  have ws: "skip_ws ?r = ?r"
    using ph unfolding pe by (auto intro!: skip_ws_nonws)
  have v: "parse MValue (Suc F') d (print_json v @ CHR '','' # ?r) = Done v (CHR '','' # ?r)"
    by (rule "10.IH"(1)) (use "10.prems" F in \<open>simp_all add: is_num_char_def\<close>)
  have len: "length ?r < F'" using "10.prems"(4) F by simp
  have rest: "parse (MElems (v # acc)) F' d ?r = Done (JArray (rev (v # acc) @ v' # vs)) rest"
    using "10.IH"(2) [where acc = "v # acc", OF _ _ _ len] "10.prems" by simp
  show ?case
    unfolding F using v rest ws
    by (subst parse.simps(3)) (simp add: skip_ws_def is_ws_def del: parse.simps)
next
  case 11
  then show ?case by simp
next
  case (12 k v)
  then obtain F' where F: "F = Suc F'" by (cases F) auto
  have wf: "wf_json v" using "12.prems"(2) by simp
  have ph: "print_json v \<noteq> []" "\<not> is_ws (hd (print_json v))"
    using print_json_head [OF wf] head_not_ws by blast+
  have ws: "skip_ws (print_json v @ CHR ''}'' # rest) = print_json v @ CHR ''}'' # rest"
    using ph by (auto intro!: skip_ws_nonws)
  have ps: "parse_string (print_members [(k, v)] @ CHR ''}'' # rest)
      = Done k (CHR '':'' # print_json v @ CHR ''}'' # rest)"
    using parse_string_json_string [of k "CHR '':'' # print_json v @ CHR ''}'' # rest"] by simp
  have pv: "parse MValue (Suc F') d (print_json v @ CHR ''}'' # rest) = Done v (CHR ''}'' # rest)"
    by (rule "12.IH") (use "12.prems" F in \<open>simp_all add: is_num_char_def\<close>)
  show ?case
    unfolding F using ps pv ws
    by (subst parse.simps(4)) (simp add: skip_ws_def is_ws_def del: parse.simps)
next
  case (13 k v kv' kvs)
  then obtain F' where F: "F = Suc F'" by (cases F) auto
  let ?r = "print_members (kv' # kvs) @ CHR ''}'' # rest"
  obtain k' v' where kv': "kv' = (k', v')" by fastforce
  have wf: "wf_json v" using "13.prems"(2) by simp
  have ph: "print_json v \<noteq> []" "\<not> is_ws (hd (print_json v))"
    using print_json_head [OF wf] head_not_ws by blast+
  have ws: "skip_ws (print_json v @ CHR '','' # ?r) = print_json v @ CHR '','' # ?r"
    using ph by (auto intro!: skip_ws_nonws)
  have pe: "?r = CHR 0x22 # json_escape k' @ CHR 0x22 # CHR '':'' # print_json v'
          @ (if kvs = [] then [] else CHR '','' # print_members kvs) @ CHR ''}'' # rest"
    using kv' by (cases kvs) (auto simp: json_string_def)
  have ws2: "skip_ws ?r = ?r"
    unfolding pe by (auto intro!: skip_ws_nonws simp: is_ws_def)
  have ps: "parse_string (print_members ((k, v) # kv' # kvs) @ CHR ''}'' # rest)
      = Done k (CHR '':'' # print_json v @ CHR '','' # ?r)"
    using parse_string_json_string [of k "CHR '':'' # print_json v @ CHR '','' # ?r"] kv' by simp
  have pv: "parse MValue (Suc F') d (print_json v @ CHR '','' # ?r) = Done v (CHR '','' # ?r)"
    by (rule "13.IH"(1)) (use "13.prems" F in \<open>simp_all add: is_num_char_def\<close>)
  have len: "length ?r < F'" using "13.prems"(4) F by simp
  have rest: "parse (MMembers ((k, v) # macc)) F' d ?r = Done (JObject (rev ((k, v) # macc) @ kv' # kvs)) rest"
    using "13.IH"(2) [where macc = "(k, v) # macc", OF _ _ _ len] "13.prems" by simp
  show ?case
    unfolding F using ps pv ws ws2 rest
    by (subst parse.simps(4)) (simp add: skip_ws_def is_ws_def del: parse.simps)
qed

lemma parse_nest_limit:
  "d + n = CJSON_NESTING_LIMIT \<Longrightarrow> n < F \<Longrightarrow>
   parse MValue F d (replicate (Suc n) (CHR ''['') @ t) = Fail (CHR ''['' # t)"
proof (induction n arbitrary: F d)
  case 0
  then obtain F' where "F = Suc F'" by (cases F) auto
  with 0 show ?case by (simp add: is_digit_def)
next
  case (Suc m)
  then obtain F'' where F: "F = Suc (Suc F'')" by (cases F; cases "F - 1") auto
  have lim: "\<not> CJSON_NESTING_LIMIT \<le> d" using Suc.prems(1) by simp
  have r: "skip_ws (replicate (Suc m) (CHR ''['') @ t) = replicate (Suc m) (CHR ''['') @ t"
    by (rule skip_ws_nonws) (simp_all add: is_ws_def)
  have IH: "parse MValue (Suc F'') (Suc d) (replicate (Suc m) (CHR ''['') @ t) = Fail (CHR ''['' # t)"
    using Suc.IH [of "Suc d" "Suc F''"] Suc.prems F by simp
  have "parse (MElems []) (Suc F'') (Suc d) (replicate (Suc m) (CHR ''['') @ t) = Fail (CHR ''['' # t)"
    using IH by (subst parse.simps(3)) (simp del: parse.simps)
  then show ?case
    unfolding F using parse_value_bracket [of "replicate (Suc (Suc m)) (CHR ''['') @ t" "replicate (Suc m) (CHR ''['') @ t" d "Suc F''"] lim r
    by simp
qed


text \<open>The 1001st nested bracket is refused where it stands.\<close>

lemma cjson_nesting_limit:
  "cjson_parse (replicate 1001 (CHR ''['') @ t) = JsonError 1000"
proof -
  let ?s = "replicate 1001 (CHR ''['') @ t"
  have bom: "skip_utf8_bom ?s = ?s"
    by (simp add: skip_utf8_bom_def UTF8_BOM_def numeral_eq_Suc)
  have ws: "skip_ws ?s = ?s"
    by (rule skip_ws_nonws) (simp_all add: is_ws_def numeral_eq_Suc)
  have "parse MValue (Suc (length ?s)) 0 (replicate (Suc 1000) (CHR ''['') @ t) = Fail (CHR ''['' # t)"
    by (rule parse_nest_limit) (simp_all add: CJSON_NESTING_LIMIT_def)
  then show ?thesis
    by (simp add: cjson_parse_def bom ws)
qed

lemma print_json_start:
  assumes "wf_json v"
  shows "skip_ws (skip_utf8_bom (print_json v @ g)) = print_json v @ g"
proof -
  have h: "print_json v \<noteq> []" "hd (print_json v) \<in> set (''nft'' @ [CHR 0x22] @ ''[{-0123456789'')"
    using print_json_head [OF assms] by blast+
  then have "hd (print_json v @ g) \<noteq> CHR 0xEF" by auto
  moreover have "hd (print_json v @ g) = CHR 0xEF" if "take 3 (print_json v @ g) = UTF8_BOM"
    using that unfolding UTF8_BOM_def by (rule take_hd)
  ultimately have "take 3 (print_json v @ g) \<noteq> UTF8_BOM"
    by blast
  then have "skip_utf8_bom (print_json v @ g) = print_json v @ g"
    by (simp add: skip_utf8_bom_def)
  moreover have "\<not> is_ws (hd (print_json v @ g))" using h head_not_ws by simp
  ultimately show ?thesis using h by (simp add: skip_ws_nonws)
qed

lemma cjson_parse_print_rest:
  assumes "wf_json v" and "json_depth v \<le> CJSON_NESTING_LIMIT"
    and "\<forall>t. v = JNumber t \<longrightarrow> g = [] \<or> \<not> is_num_char (hd g)"
  shows "cjson_parse (print_json v @ g) = JsonOk v"
  using parse_print(1) [OF assms(1) _ _ assms(3), of 0 "Suc (length (print_json v @ g))"] assms(2)
  by (simp add: cjson_parse_def print_json_start [OF assms(1)])


text \<open>Parsing the printing of a well-formed document gives it back.\<close>

lemma cjson_parse_print:
  "wf_json v \<Longrightarrow> json_depth v \<le> CJSON_NESTING_LIMIT \<Longrightarrow> cjson_parse (print_json v) = JsonOk v"
  using cjson_parse_print_rest [of v "[]"] by simp


lemma link_response_print:
  "link_response l = print_json (JObject [(''data'', JObject [(''link'', JString l)])])"
  by (simp add: link_response_def)

lemma cjson_parse_link_response:
  "NUL \<notin> set l \<Longrightarrow> cjson_parse (link_response l) = JsonOk (JObject [(''data'', JObject [(''link'', JString l)])])"
  unfolding link_response_print by (rule cjson_parse_print) (simp_all add: CJSON_NESTING_LIMIT_def)

lemma nul_notin_json_escape: "NUL \<notin> set s \<Longrightarrow> NUL \<notin> set (json_escape s)"
  by (induction s) auto


lemma parse_fuel_enough: "length s < F \<Longrightarrow> parse m F d s \<noteq> NoFuel"
  using parse_lenD [of m F d s] by blast

lemma nul_not_num_char: "list_all is_num_char t \<Longrightarrow> NUL \<notin> set t"
proof -
  have "\<not> is_num_char NUL" by (simp add: is_num_char_def)
  then show "list_all is_num_char t \<Longrightarrow> NUL \<notin> set t" by (induction t) auto
qed

lemma nul_notin_json_string: "NUL \<notin> set s \<Longrightarrow> NUL \<notin> set (json_string s)"
  by (simp add: json_string_def nul_notin_json_escape)

lemma nul_notin_print_json:
  shows "wf_json v \<Longrightarrow> NUL \<notin> set (print_json v)"
    and "list_all wf_json vs \<Longrightarrow> NUL \<notin> set (print_elems vs)"
    and "list_all (\<lambda>(k, v). NUL \<notin> set k \<and> wf_json v) kvs \<Longrightarrow> NUL \<notin> set (print_members kvs)"
  by (induction v and vs and kvs rule: print_json_print_elems_print_members.induct)
    (simp_all add: nul_not_num_char nul_notin_json_string)

lemma c_str_append: "NUL \<notin> set p \<Longrightarrow> c_str (p @ g) = p @ c_str g"
  by (induction p) auto

lemma json_object_not_number: "\<forall>t. JObject kvs = JNumber t \<longrightarrow> g = [] \<or> \<not> is_num_char (hd g)"
  by simp

lemma skip_utf8_bom_ws: "s = [] \<or> is_ws (hd s) \<Longrightarrow> skip_utf8_bom s = s"
proof -
  assume h: "s = [] \<or> is_ws (hd s)"
  have "\<not> (take 3 s = UTF8_BOM \<and> s \<noteq> [])"
  proof
    assume "take 3 s = UTF8_BOM \<and> s \<noteq> []"
    then have "hd s = CHR 0xEF" unfolding UTF8_BOM_def by (intro take_hd) auto
    with h \<open>take 3 s = UTF8_BOM \<and> s \<noteq> []\<close> show False by (simp add: is_ws_def)
  qed
  then show ?thesis by (auto simp: skip_utf8_bom_def UTF8_BOM_def)
qed

text \<open>What \<open>extract_link_from_response\<close> reads from a document.\<close>

lemma extract_link_doc:
  "cjson_parse (c_str js) = JsonOk v \<Longrightarrow>
   extract_link_from_response cjson_parse js w = (string_value (get_object_item (get_object_item (Some v) ''data'') ''link''), w)"
  by (simp add: extract_link_from_response_def)


text \<open>
  C11: with the real parser, a reply \<open>{"data":{"link":l}}\<close> whose link has no
  NUL byte yields exactly \<open>l\<close>, and nothing is written to stderr.
\<close>

theorem extract_link_cjson:
  "NUL \<notin> set l \<Longrightarrow> extract_link_from_response cjson_parse (link_response l) w = (Some l, w)"
proof -
  assume l: "NUL \<notin> set l"
  have "NUL \<notin> set (link_response l)"
    using nul_notin_json_escape [OF l] by (simp add: link_response_def json_string_def)
  then have "c_str (link_response l) = link_response l" by (rule c_str_no_nul)
  with cjson_parse_link_response [OF l] l show ?thesis
    by (simp add: extract_link_from_response_def c_str_no_nul)
qed


text \<open>
  C12: the program reads a printed reply the way it was written: for every
  well-formed document nested at most 1000 deep, \<open>extract_link_from_response\<close>
  with cJSON on its printing returns the document's \<open>data.link\<close> string and
  writes nothing to stderr (parse after print is the identity).
\<close>

theorem extract_link_print:
  "wf_json v \<Longrightarrow> json_depth v \<le> CJSON_NESTING_LIMIT \<Longrightarrow>
   extract_link_from_response cjson_parse (print_json v) w
     = (string_value (get_object_item (get_object_item (Some v) ''data'') ''link''), w)"
  by (rule extract_link_doc) (simp add: c_str_no_nul nul_notin_print_json(1) cjson_parse_print)

text \<open>
  C13: the recursive descent always returns: on every reply body the parser
  either yields a document, which is what the lookups see, or stops at a
  position of the body, whose rest is printed after \<open>Error before:\<close>; the
  fuel given to it (one more than the body's length) is never exhausted.
\<close>

theorem extract_link_cjson_returns:
  "(\<exists>v r. parse MValue (Suc (length (c_str js))) 0 (skip_ws (skip_utf8_bom (c_str js))) = Done v r
      \<and> extract_link_from_response cjson_parse js w
          = (string_value (get_object_item (get_object_item (Some v) ''data'') ''link''), w))
   \<or> (\<exists>r. parse MValue (Suc (length (c_str js))) 0 (skip_ws (skip_utf8_bom (c_str js))) = Fail r
      \<and> extract_link_from_response cjson_parse js w
          = (None, put_err (''Error before: '' @ drop (length (c_str js) - length r) (c_str js)) w))"
proof -
  let ?p = "parse MValue (Suc (length (c_str js))) 0 (skip_ws (skip_utf8_bom (c_str js)))"
  have "length (skip_ws (skip_utf8_bom (c_str js))) < Suc (length (c_str js))"
    using length_skip_ws [of "skip_utf8_bom (c_str js)"] length_skip_utf8_bom [of "c_str js"] by linarith
  then have "?p \<noteq> NoFuel" by (rule parse_fuel_enough)
  then show ?thesis
    by (cases ?p) (simp_all add: extract_link_from_response_def cjson_parse_def)
qed

text \<open>
  C14: a body that opens 1001 nested arrays hits \<open>CJSON_NESTING_LIMIT\<close>: no
  link, and the diagnostic shows the text from the 1001st bracket on, which
  is refused before it is consumed.
\<close>

theorem extract_link_nesting_limit:
  "extract_link_from_response cjson_parse (replicate 1001 (CHR ''['') @ t) w
     = (None, put_err (''Error before: '' @ CHR ''['' # c_str t) w)"
proof -
  have c: "c_str (replicate 1001 (CHR ''['') @ t) = replicate 1001 (CHR ''['') @ c_str t"
    by (rule c_str_append) simp
  show ?thesis
    unfolding extract_link_from_response_def c cjson_nesting_limit
    by (simp add: numeral_eq_Suc)
qed

text \<open>
  C34: \<open>cJSON_Parse\<close> does not require the end of the body after the value:
  an object followed by any bytes is read as that object, so a reply with
  trailing garbage still yields its link and no diagnostic.
\<close>

theorem extract_link_trailing_garbage:
  "wf_json (JObject kvs) \<Longrightarrow> json_depth (JObject kvs) \<le> CJSON_NESTING_LIMIT \<Longrightarrow>
   extract_link_from_response cjson_parse (print_json (JObject kvs) @ g) w
     = (string_value (get_object_item (get_object_item (Some (JObject kvs)) ''data'') ''link''), w)"
  by (rule extract_link_doc)
    (simp add: c_str_append nul_notin_print_json(1) cjson_parse_print_rest json_object_not_number del: print_json.simps)

text \<open>
  C35: an empty or blank body (only bytes \<open>cJSON\<close> skips as white space)
  fails at its end: no link, and nothing follows \<open>Error before:\<close>.
\<close>

theorem extract_link_blank_body:
  "NUL \<notin> set s \<Longrightarrow> list_all is_ws s \<Longrightarrow>
   extract_link_from_response cjson_parse s w = (None, put_err ''Error before: '' w)"
proof -
  assume nul: "NUL \<notin> set s" and ws: "list_all is_ws s"
  have bom: "skip_utf8_bom s = s"
    using ws by (intro skip_utf8_bom_ws) (cases s, simp_all)
  have "skip_ws s = []"
    using ws by (simp add: skip_ws_def list_all_iff)
  then have "cjson_parse s = JsonError (length s)"
    by (simp add: cjson_parse_def bom)
  then show ?thesis
    by (simp add: extract_link_from_response_def c_str_no_nul [OF nul])
qed

theorem extract_link_cjson_witness:
  "NUL \<notin> set ''https://i.imgur.com/a.png''
   \<and> extract_link_from_response cjson_parse (link_response ''https://i.imgur.com/a.png'') quiet_world
       = (Some ''https://i.imgur.com/a.png'', quiet_world)"
  using extract_link_cjson [of "''https://i.imgur.com/a.png''" quiet_world] by simp

theorem extract_link_print_witness:
  "wf_json (JObject [(''data'', JObject [(''link'', JString ''https://i.imgur.com/a.png'')]), (''n'', JArray [JNumber ''-1.5e3'', JTrue, JNull])])
   \<and> json_depth (JObject [(''data'', JObject [(''link'', JString ''https://i.imgur.com/a.png'')]), (''n'', JArray [JNumber ''-1.5e3'', JTrue, JNull])]) \<le> CJSON_NESTING_LIMIT
   \<and> extract_link_from_response cjson_parse (print_json (JObject [(''data'', JObject [(''link'', JString ''https://i.imgur.com/a.png'')]), (''n'', JArray [JNumber ''-1.5e3'', JTrue, JNull])])) quiet_world
       = (Some ''https://i.imgur.com/a.png'', quiet_world)"
  using extract_link_print [of "JObject [(''data'', JObject [(''link'', JString ''https://i.imgur.com/a.png'')]), (''n'', JArray [JNumber ''-1.5e3'', JTrue, JNull])]" quiet_world]
  by (simp add: cjson_eval)

theorem extract_link_trailing_garbage_witness:
  "wf_json (JObject [(''data'', JObject [(''link'', JString ''x'')])])
   \<and> json_depth (JObject [(''data'', JObject [(''link'', JString ''x'')])]) \<le> CJSON_NESTING_LIMIT
   \<and> extract_link_from_response cjson_parse (print_json (JObject [(''data'', JObject [(''link'', JString ''x'')])]) @ ''}]garbage'') quiet_world
       = (Some ''x'', quiet_world)"
  using extract_link_trailing_garbage [of "[(''data'', JObject [(''link'', JString ''x'')])]" "''}]garbage''" quiet_world]
  by (simp add: cjson_eval)

theorem extract_link_blank_body_witness:
  "NUL \<notin> set [CHR 0x20, CHR 0x0A, CHR 0x09] \<and> list_all is_ws [CHR 0x20, CHR 0x0A, CHR 0x09]
   \<and> extract_link_from_response cjson_parse [CHR 0x20, CHR 0x0A, CHR 0x09] quiet_world
       = (None, put_err ''Error before: '' quiet_world)"
  using extract_link_blank_body [of "[CHR 0x20, CHR 0x0A, CHR 0x09]" quiet_world] by (simp add: is_ws_def)

end
