(* ===== verification/Spec2Isabelle.thy ===== *)
theory Spec2Isabelle
  imports MainLoop CJson
begin

text \<open>
  Verification development of spectacle-autoimgur, a single C program
  (\<open>src/main.c\<close>) that watches a screenshot directory with inotify, uploads
  each new image to imgur with libcurl, reads the link out of the JSON reply
  with cJSON and puts it on the Wayland clipboard with \<open>wl-copy\<close>.

  \<^bold>\<open>Parts and theories.\<close>
  \<^item> \<open>Prelude\<close>: C strings as character lists ended by \<open>NUL\<close> (\<open>c_str\<close>),
    \<open>strrchr\<close>, \<open>strcmp\<close>, \<open>snprintf\<close> with its truncation, and the list
    lemmas the components share.
  \<^item> \<open>Os\<close>: the environment. The inotify event record and its byte layout
    (\<open>encode_event\<close>, \<open>kernel_buffer\<close>, little-endian \<open>le32_read\<close>); the libcurl
    request (\<open>curl_request\<close>) and server reply (\<open>net_reply\<close>); and the record
    \<open>world\<close>: files and directories, the inotify read queue, pending replies and
    sent requests, heap size for \<open>realloc\<close>, the \<open>popen\<close>/\<open>wl-copy\<close>/\<open>pclose\<close>
    outcomes, the bytes that follow the \<open>malloc(1)\<close> block, the clipboard,
    the clock, stdout, stderr and a count of the allocations the code never
    frees. Every value the program cannot control is a field of the world and
    the theorems hold for every value of it; the flags (\<open>inotify_init\<close> and
    \<open>inotify_add_watch\<close> succeed, \<open>curl_easy_init\<close> succeeds, the watchable
    directories, the files, \<open>popen\<close>, the exit status of \<open>wl-copy\<close>,
    \<open>pclose\<close>) are fixed for a run, so an environment in which one of them
    changes between two passes of the loop is not covered.
  \<^item> \<open>Watcher\<close>: \<open>watch_directory\<close> (lines 167--213) in three layers: the
    event test \<open>qualifies\<close>/\<open>is_image_ext\<close> (192--196), the byte walk
    \<open>process_events\<close> over one batch (190--210), the read loop \<open>watch_reads\<close>
    (183--212), and the descriptor handling in \<open>watch_directory\<close>.
  \<^item> \<open>Json\<close>: \<open>extract_link_from_response\<close> (27--45) and the cJSON lookups it
    calls, over any parser given as the parameter \<open>json_parse\<close>.
  \<^item> \<open>CJson\<close>: the cJSON parser the program links (\<open>cJSON_Parse\<close>), modelled
    from the library's source, which is not part of this repository:
    \<open>parse\<close> in three modes stands for \<open>parse_value\<close>/\<open>parse_array\<close>/
    \<open>parse_object\<close>, with \<open>parse_string\<close>, \<open>parse_number\<close>, whitespace and
    byte-order-mark skipping; \<open>cjson_parse\<close> returns the document or the
    offset \<open>cJSON_GetErrorPtr\<close> reports.
  \<^item> \<open>Uploader\<close>: \<open>get_image_name\<close> as a \<open>strtok_r\<close> loop (137--165), the
    write callback \<open>get_response\<close> on 64-bit \<open>size_t\<close> (65--81), the transfer
    \<open>curl_perform\<close>/\<open>deliver\<close>, \<open>file_exists\<close> (61--63), the request
    \<open>upload_request\<close> (95--117) and \<open>upload_image\<close> (83--135).
  \<^item> \<open>Clipboard\<close>: \<open>copy_string_to_clipboard\<close> (47--59).
  \<^item> \<open>MainLoop\<close>: \<open>main\<close> (215--271): argument handling \<open>main_args\<close>, one pass
    of the loop \<open>main_cycle\<close>, the loop \<open>main_loop\<close>, and the specification's
    state machine Watching/Debouncing/Uploading/Publishing as the inductive
    relation \<open>loop_step\<close>.
  \<^item> This theory: the property that spans all components, one pass of the
    loop carrying a link from the server's reply to the clipboard through the
    real watcher, transfer, cJSON parser and clipboard writer
    (\<open>link_reaches_clipboard\<close>).

  \<^bold>\<open>How the components interact.\<close> Each operation maps a \<open>world\<close> to a
  result and a new world, in the order the C code calls them: \<open>main_cycle\<close>
  runs \<open>watch_directory\<close>, prints, advances the clock by the \<open>sleep(1)\<close>,
  runs \<open>upload_image\<close> (which runs \<open>curl_perform\<close> and
  \<open>extract_link_from_response\<close>) and then \<open>copy_string_to_clipboard\<close>.
  The parser is passed down from \<open>main\<close> as a capability; the theorems of
  the components hold for every parser, and the CJson theorems and
  \<open>link_reaches_clipboard\<close> instantiate it with \<open>cjson_parse\<close>.

  \<^bold>\<open>What is proved.\<close>
  \<^item> Watcher: the byte walk equals a scan of the event list the kernel
    encoded (refinement, including the little-endian round trip); the watcher
    returns exactly the first qualifying event of the first batch that has
    one; it blocks on non-images, stops the process on every failure, and
    drops the rest of a batch (the second image of a batch is lost); for
    every read that fits \<open>EVENT_BUF_LEN\<close> the \<open>int\<close> offset of the walk
    takes exactly the event boundaries and stays below \<open>INT_MAX\<close>.
  \<^item> Json/Uploader: the link is \<open>data.link\<close> exactly when it is a string; a
    parse failure and a missing field both yield \<open>NULL\<close> and differ only in
    the \<open>Error before:\<close> line; a missing file sends nothing; a failed transfer never
    parses; a good reply yields the link after one request; the callback
    assembles the body without wrap-around and keeps the buffer a block of
    \<open>size + 1\<close> bytes ending in \<open>NUL\<close> through every sequence of calls,
    failed \<open>realloc\<close>s included (\<open>chunk_ok\<close>); an empty body leaves the
    \<open>malloc(1)\<close> block unterminated, so cJSON reads its uninitialised byte and
    then whatever the heap holds after it.
  \<^item> CJson: fuel beyond the input's length never runs out (the C recursion
    returns); parsing the printing of a well-formed document within the
    nesting limit gives it back (round trip); the 1001st nested bracket is
    rejected at its own offset; text after a complete value is ignored; an
    empty or blank body fails at its end; and the link of a real reply is
    extracted unchanged.
  \<^item> Clipboard: the outcome, and that a failing \<open>wl-copy\<close> is reported as
    success.
  \<^item> MainLoop: \<open>main_loop\<close> is total and every run of it is a run of
    \<open>loop_step\<close>; a screenshot announced by the next read, for an existing
    file, is always uploaded (the request is sent, whatever follows), and the
    requests of a run are one per announcing read, in the order of the reads
    (\<open>shots\<close>); in every reachable configuration at most as many requests
    were sent as seconds were slept, and the clipboard only ever receives a
    link an upload returned; the argument handling, including the unchecked
    \<open>stat\<close>.
  \<^item> Across components: when the next read announces an existing image and
    the server answers with a link, one pass sends the one request and leaves
    exactly that link on the clipboard.

  \<^bold>\<open>Bounds and termination.\<close> No fuel is used. \<open>process_events\<close>
  terminates on \<open>length - i\<close> (every step advances by at least 16 bytes);
  \<open>last_token\<close> on the length of the rest of the string; \<open>main_loop\<close> on
  the number of pending reads: the real loop runs forever, but each pass that
  returns consumes a read, and when no read is pending the program waits in
  \<open>read\<close>, which the model reports as \<open>Waiting\<close>. The cJSON model uses
  fuel: \<open>cjson_parse\<close> gives \<open>parse\<close> one more unit than the input's
  length, and every unit is spent only on a step that consumes input or
  closes a container, so it never runs out (\<open>parse_fuel_enough\<close>). Word widths are the
  code's: inotify fields are \<open>32 word\<close>, \<open>size_t\<close> is \<open>64 word\<close>; the
  theorems on \<open>get_response\<close> assume a heap below \<open>2^63\<close> bytes and libcurl's
  chunk limit \<open>CURL_MAX_WRITE_SIZE\<close>, under which no size wraps.

  \<^bold>\<open>Not modelled.\<close> The model follows cJSON 1.7.18 and later, whose
  \<open>parse_number\<close> has no 63-byte limit on a number's text. Of cJSON, the conversion of a number's text to a
  \<open>double\<close> (the model keeps the text \<open>strtod\<close> accepts), allocation failure
  inside the parser, and the other cJSON entry points; libcurl's transport, TLS and redirects (a reply is taken from the world);
  \<open>curl_global_init\<close>; the bytes of the file uploaded (the request names the
  file); signals and process termination from outside.
\<close>

lemma c_str_link_response: "NUL \<notin> set l \<Longrightarrow> c_str (link_response l) = link_response l"
  by (rule c_str_no_nul) (simp add: link_response_def json_string_def nul_notin_json_escape)

text \<open>
  C10: one pass of the loop carries a screenshot's link from the server to
  the clipboard: when the next read announces an existing image, curl starts,
  the reply is \<open>{"data":{"link":l}}\<close> in one chunk that the heap can hold,
  \<open>l\<close> has no \<open>NUL\<close>, and \<open>wl-copy\<close> runs and succeeds, then the pass sends
  exactly the upload request for that file and leaves exactly \<open>l\<close> on the
  clipboard, through the real watcher, transfer, cJSON parser and clipboard
  writer.
\<close>

theorem link_reaches_clipboard:
  assumes "\<forall>r \<in> set (w_reads w). wf_read r" and "w_inotify_ok w" and "c_str dir \<in> w_watchable w"
    and "w_reads w = ReadEvents evs # rest" and "scan_events dir evs = Some p"
    and "file_exists p w" and "w_curl_ok w"
    and "next_reply w = \<lparr>rp_code = CURLE_OK, rp_chunks = [link_response l]\<rparr>"
    and "NUL \<notin> set l" and "length (link_response l) \<le> CURL_MAX_WRITE_SIZE"
    and "w_heap w < 2 ^ 63" and "length (link_response l) + 1 \<le> w_heap w"
    and "w_popen_ok w" and "w_wlcopy_status w = 0" and "\<not> w_pclose_fails w"
  shows "fst (main_cycle cjson_parse dir client w) = CycleDone
    \<and> w_clipboard (snd (main_cycle cjson_parse dir client w)) = l
    \<and> w_sent (snd (main_cycle cjson_parse dir client w)) = w_sent w @ [upload_request p client]"
proof -
  have wd: "watch_directory dir w = (WatchFound p, w\<lparr>w_reads := rest\<rparr>)"
    using watch_directory_scan [OF assms(1-3)] assms(4,5) by simp
  let ?w3 = "(put_out (''New file created: '' @ p) (w\<lparr>w_reads := rest\<rparr>))\<lparr>w_clock := w_clock w + 1\<rparr>"
  have doc: "cjson_parse (c_str (concat [link_response l])) = JsonOk (JObject [(''data'', JObject [(''link'', JString l)])])"
    using cjson_parse_link_response [OF assms(9)] c_str_link_response [OF assms(9)] by simp
  have lk: "get_object_item (get_object_item (Some (JObject [(''data'', JObject [(''link'', JString l)])])) ''data'') ''link''
      = Some (JString l)"
    by simp
  have h: "file_exists p ?w3" "w_curl_ok ?w3"
    "next_reply ?w3 = \<lparr>rp_code = CURLE_OK, rp_chunks = [link_response l]\<rparr>"
    "[link_response l] \<noteq> []" "chunks_fit [link_response l]" "w_heap ?w3 < 2 ^ 63"
    "length (concat [link_response l]) + 1 \<le> w_heap ?w3"
    using assms(6-8,10-12) by (simp_all add: file_exists_def put_out_def next_reply_def chunks_fit_def)
  note u = upload_image_link [where json_parse = cjson_parse and image_path = p and cs = "[link_response l]" and client_id = client, OF h doc lk]
  obtain w4 where up: "upload_image cjson_parse p client ?w3 = (Some l, w4)"
    and s4: "w_sent w4 = w_sent w @ [upload_request p client]"
    using u c_str_no_nul [OF assms(9)] by (cases "upload_image cjson_parse p client ?w3") (simp add: put_out_def)
  have k: "w_popen_ok w4 \<and> w_wlcopy_status w4 = 0 \<and> \<not> w_pclose_fails w4"
    using upload_image_frame [of cjson_parse p client ?w3] up assms(13-15) by (simp add: put_out_def)
  show ?thesis
    using wd up s4 k c_str_no_nul [OF assms(9)]
    by (simp add: main_cycle_def Let_def copy_string_to_clipboard_def put_out_def)
qed

theorem link_reaches_clipboard_witness:
  "wf_read (ReadEvents [create_event IN_CREATE ''shot.png''])
   \<and> scan_events ''/s'' [create_event IN_CREATE ''shot.png''] = Some ''/s/shot.png''
   \<and> length (link_response ''https://i.imgur.com/a.png'') \<le> CURL_MAX_WRITE_SIZE
   \<and> w_clipboard (snd (main_cycle cjson_parse ''/s'' ''cid''
       (quiet_world\<lparr>w_watchable := {''/s''}, w_paths := {''/s/shot.png''},
          w_reads := [ReadEvents [create_event IN_CREATE ''shot.png'']],
          w_replies := [\<lparr>rp_code = 0, rp_chunks = [link_response ''https://i.imgur.com/a.png'']\<rparr>]\<rparr>)))
     = ''https://i.imgur.com/a.png''"
proof -
  have sc: "scan_events ''/s'' [create_event IN_CREATE ''shot.png''] = Some ''/s/shot.png''"
    by (simp add: scan_events_def event_eval join_path_def ends_with_slash_def snprintf_str_def PATH_MAX_def)
  have len: "length (link_response ''https://i.imgur.com/a.png'') \<le> CURL_MAX_WRITE_SIZE"
    by (simp add: link_response_def json_string_def CURL_MAX_WRITE_SIZE_def)
  show ?thesis
    using link_reaches_clipboard [of "quiet_world\<lparr>w_watchable := {''/s''}, w_paths := {''/s/shot.png''},
          w_reads := [ReadEvents [create_event IN_CREATE ''shot.png'']],
          w_replies := [\<lparr>rp_code = 0, rp_chunks = [link_response ''https://i.imgur.com/a.png'']\<rparr>]\<rparr>"
        "''/s''" "[create_event IN_CREATE ''shot.png'']" "[]" "''/s/shot.png''" "''https://i.imgur.com/a.png''" "''cid''"]
      sc len
    by (simp add: wf_read_def wf_create_event quiet_world_def file_exists_def next_reply_def CURLE_OK_def
        link_response_def json_string_def)
qed

end
